theory Spec2Isabelle
  imports Main
begin

section \<open>Strings and characters\<close>

text \<open>
  A JavaScript string is a sequence of UTF-16 code units. The model has the strings whose
  code units are below 256: a \<^typ>\<open>char\<close> is such a code unit, and a \<^typ>\<open>string\<close> a
  JavaScript string made of them. Within these code units the character classes, \<^verbatim>\<open>trim\<close>
  and the case conversions below are those of the language.
\<close>

definition isDigit :: "char \<Rightarrow> bool" where
  "isDigit x = (x \<in> set ''0123456789'')"

definition isLower :: "char \<Rightarrow> bool" where
  "isLower x = (x \<in> set ''abcdefghijklmnopqrstuvwxyz'')"

definition isUpper :: "char \<Rightarrow> bool" where
  "isUpper x = (x \<in> set ''ABCDEFGHIJKLMNOPQRSTUVWXYZ'')"

definition isAlpha :: "char \<Rightarrow> bool" where
  "isAlpha x = (isLower x \<or> isUpper x)"

text \<open>\<^verbatim>\<open>\w\<close>, the class behind \<^verbatim>\<open>\b\<close>.\<close>

definition isWordChar :: "char \<Rightarrow> bool" where
  "isWordChar x = (isAlpha x \<or> isDigit x \<or> x = CHR ''_'')"

text \<open>
  \<^verbatim>\<open>\s\<close> and the characters \<^verbatim>\<open>trim()\<close> removes: TAB, LF, VT, FF, CR, space and the no-break
  space U+00A0 (the other white space of the language has code units above 255).
\<close>

definition isSpace :: "char \<Rightarrow> bool" where
  "isSpace x = (x \<in> set [CHR 0x09, CHR 0x0A, CHR 0x0B, CHR 0x0C, CHR 0x0D, CHR 0x20, CHR 0xA0])"

text \<open>
  The dot of a regular expression matches everything but a line terminator: LF and CR (the
  other two, U+2028 and U+2029, are above 255).
\<close>

definition isDot :: "char \<Rightarrow> bool" where
  "isDot x = (x \<noteq> CHR 0x0A \<and> x \<noteq> CHR 0x0D)"

subsection \<open>Case conversion\<close>

text \<open>
  The letters with a case below 256: the ASCII letters and the Latin-1 letters U+00C0 to
  U+00DE (without the multiplication sign U+00D7) with their lower-case forms U+00E0 to
  U+00FE (without the division sign U+00F7).
\<close>

definition upperLetters :: string where
  "upperLetters =
     ''ABCDEFGHIJKLMNOPQRSTUVWXYZ'' @
     [CHR 0xC0, CHR 0xC1, CHR 0xC2, CHR 0xC3, CHR 0xC4, CHR 0xC5, CHR 0xC6, CHR 0xC7, CHR 0xC8, CHR 0xC9, CHR 0xCA, CHR 0xCB, CHR 0xCC, CHR 0xCD, CHR 0xCE, CHR 0xCF, CHR 0xD0, CHR 0xD1, CHR 0xD2, CHR 0xD3, CHR 0xD4, CHR 0xD5, CHR 0xD6, CHR 0xD8, CHR 0xD9, CHR 0xDA, CHR 0xDB, CHR 0xDC, CHR 0xDD, CHR 0xDE]"

definition lowerLetters :: string where
  "lowerLetters =
     ''abcdefghijklmnopqrstuvwxyz'' @
     [CHR 0xE0, CHR 0xE1, CHR 0xE2, CHR 0xE3, CHR 0xE4, CHR 0xE5, CHR 0xE6, CHR 0xE7, CHR 0xE8, CHR 0xE9, CHR 0xEA, CHR 0xEB, CHR 0xEC, CHR 0xED, CHR 0xEE, CHR 0xEF, CHR 0xF0, CHR 0xF1, CHR 0xF2, CHR 0xF3, CHR 0xF4, CHR 0xF5, CHR 0xF6, CHR 0xF8, CHR 0xF9, CHR 0xFA, CHR 0xFB, CHR 0xFC, CHR 0xFD, CHR 0xFE]"

fun shiftChar :: "string \<Rightarrow> string \<Rightarrow> char \<Rightarrow> char" where
  "shiftChar (a # as) (b # bs) x = (if x = a then b else shiftChar as bs x)"
| "shiftChar _ _ x = x"

text \<open>\<^verbatim>\<open>toLowerCase\<close> on one code unit and on a string.\<close>

definition toLowerC :: "char \<Rightarrow> char" where
  "toLowerC = shiftChar upperLetters lowerLetters"

definition toLowerCase :: "string \<Rightarrow> string" where
  "toLowerCase s = map toLowerC s"

text \<open>
  \<^verbatim>\<open>toUpperCase\<close> on one code unit gives a string: the sharp s U+00DF becomes \<^verbatim>\<open>SS\<close>. The
  upper-case forms of the micro sign U+00B5 and of U+00FF are U+039C and U+0178, which
  are not code units below 256; what stands for them in a string of the model is given by
  the parameter \<open>beyond\<close>.
\<close>

definition toUpperC :: "(char \<Rightarrow> string) \<Rightarrow> char \<Rightarrow> string" where
  "toUpperC beyond x =
     (if x = CHR 0xDF then ''SS''
      else if x = CHR 0xB5 \<or> x = CHR 0xFF then beyond x
      else [shiftChar lowerLetters upperLetters x])"

definition trim :: "string \<Rightarrow> string" where
  "trim s = rev (dropWhile isSpace (rev (dropWhile isSpace s)))"

fun join :: "string \<Rightarrow> string list \<Rightarrow> string" where
  "join sep [] = []"
| "join sep [w] = w"
| "join sep (w # ws) = w @ sep @ join sep ws"

section \<open>Regular expressions: a backtracking matcher\<close>

text \<open>
  The source does its string work with regular expressions. They are embedded as terms of
  \<open>re\<close> and run by a backtracking matcher that returns, in the order a JavaScript engine
  tries them, every way the expression can match at the current position; the head of the
  list is the match the engine reports. A matcher state is the character before the
  position (for \<^verbatim>\<open>^\<close> and \<^verbatim>\<open>\b\<close>), the rest of the input, and the captures.
\<close>

type_synonym caps = "nat \<Rightarrow> string option"
type_synonym mstate = "char option \<times> string \<times> caps"

datatype re =
    Chr "char \<Rightarrow> bool"
  | Eps
  | Seq re re
  | Alt re re
  | Rep nat "nat option" bool re
  | Grp nat re
  | Bol
  | Eol
  | Wb

text \<open>
  \<open>Rep mn mx g r\<close> is \<^verbatim>\<open>r{mn,mx}\<close> (\<open>mx = None\<close>: unbounded), greedy when \<open>g\<close> holds and
  lazy otherwise; \<open>Grp i r\<close> is the \<open>i\<close>-th capturing group; \<open>Bol\<close>, \<open>Eol\<close>, \<open>Wb\<close> are
  \<^verbatim>\<open>^\<close>, \<^verbatim>\<open>$\<close> (no multiline flag) and \<^verbatim>\<open>\b\<close>.
\<close>

fun rsz :: "re \<Rightarrow> nat" where
  "rsz (Seq a b) = Suc (rsz a + rsz b)"
| "rsz (Alt a b) = Suc (rsz a + rsz b)"
| "rsz (Rep mn mx g a) = Suc (rsz a)"
| "rsz (Grp i a) = Suc (rsz a)"
| "rsz _ = 0"

fun rmin :: "re \<Rightarrow> nat" where
  "rmin (Rep mn mx g a) = mn"
| "rmin _ = 0"

fun grps :: "re \<Rightarrow> nat list" where
  "grps (Seq a b) = grps a @ grps b"
| "grps (Alt a b) = grps a @ grps b"
| "grps (Rep mn mx g a) = grps a"
| "grps (Grp i a) = i # grps a"
| "grps _ = []"

definition clr :: "nat list \<Rightarrow> caps \<Rightarrow> caps" where
  "clr is c = (\<lambda>i. if i \<in> set is then None else c i)"

text \<open>
  A repetition follows the language definition: the captures of the body are reset before
  each iteration, and once the minimum is reached an iteration that consumes nothing is
  rejected.
\<close>

function ms :: "re \<Rightarrow> mstate \<Rightarrow> mstate list" where
  "ms (Chr P) (p, s, c) =
     (case s of [] \<Rightarrow> [] | x # t \<Rightarrow> if P x then [(Some x, t, c)] else [])"
| "ms Eps st = [st]"
| "ms (Seq a b) st = concat (map (ms b) (ms a st))"
| "ms (Alt a b) st = ms a st @ ms b st"
| "ms (Grp i a) (p, s, c) =
     map (\<lambda>(p', s', c'). (p', s', c'(i \<mapsto> take (length s - length s') s))) (ms a (p, s, c))"
| "ms Bol (p, s, c) = (if p = None then [(p, s, c)] else [])"
| "ms Eol (p, s, c) = (if s = [] then [(p, s, c)] else [])"
| "ms Wb (p, s, c) =
     (if (case p of None \<Rightarrow> False | Some x \<Rightarrow> isWordChar x)
         \<noteq> (case s of [] \<Rightarrow> False | y # _ \<Rightarrow> isWordChar y)
      then [(p, s, c)] else [])"
| "ms (Rep mn mx g a) (p, s, c) =
     (if mx = Some 0 then [(p, s, c)]
      else
        (let more = concat (map (\<lambda>(p', s', c').
                       if mn = 0 \<and> \<not> length s' < length s then []
                       else ms (Rep (mn - 1) (map_option (\<lambda>m. m - 1) mx) g a) (p', s', c'))
                     (ms a (p, s, clr (grps a) c)));
             stop = (if mn = 0 then [(p, s, c)] else [])
         in if g then more @ stop else stop @ more))"
  by pat_completeness auto
termination
  by (relation "measures [\<lambda>(r, st). rsz r, \<lambda>(r, st). rmin r, \<lambda>(r, p, s, c). length s]") auto

text \<open>
  \<open>search\<close> is the engine's loop over start positions (leftmost match first). It returns the
  text before the match, the matched text, the captures and the text after the match.
\<close>

fun search :: "re \<Rightarrow> string \<Rightarrow> char option \<Rightarrow> string \<Rightarrow> (string \<times> string \<times> caps \<times> string) option" where
  "search r acc p s =
     (case ms r (p, s, Map.empty) of
        (p', s', c') # _ \<Rightarrow>
          Some (rev acc, take (length s - length s') s, c', drop (length s - length s') s)
      | [] \<Rightarrow> (case s of [] \<Rightarrow> None | x # t \<Rightarrow> search r (x # acc) (Some x) t))"

text \<open>\<^verbatim>\<open>str.match(re)\<close> and \<^verbatim>\<open>re.exec(str)\<close> for an expression without the global flag.\<close>

definition exec :: "re \<Rightarrow> string \<Rightarrow> (string \<times> string \<times> caps \<times> string) option" where
  "exec r w = search r [] None w"

definition test :: "re \<Rightarrow> string \<Rightarrow> bool" where
  "test r w = (exec r w \<noteq> None)"

text \<open>\<^verbatim>\<open>str.replace(re, template)\<close> without the global flag: the first match only.\<close>

definition replace1 :: "re \<Rightarrow> (caps \<Rightarrow> string) \<Rightarrow> string \<Rightarrow> string" where
  "replace1 r f w = (case exec r w of None \<Rightarrow> w | Some (b, m, c, a) \<Rightarrow> b @ f c @ a)"

text \<open>
  With the global flag every match is replaced, each search starting where the previous
  match ended (one character further after an empty match).
\<close>

function gsubFrom :: "re \<Rightarrow> (caps \<Rightarrow> string) \<Rightarrow> char option \<Rightarrow> string \<Rightarrow> string" where
  "gsubFrom r f p s =
     (case ms r (p, s, Map.empty) of
        [] \<Rightarrow> (case s of [] \<Rightarrow> [] | x # t \<Rightarrow> x # gsubFrom r f (Some x) t)
      | (p', s', c') # _ \<Rightarrow>
          (let k = length s - length s' in
           if k = 0 then f c' @ (case s of [] \<Rightarrow> [] | x # t \<Rightarrow> x # gsubFrom r f (Some x) t)
           else f c' @ gsubFrom r f p' (drop k s)))"
  by pat_completeness auto
termination
  by (relation "measure (\<lambda>(r, f, p, s). length s)") auto

definition replaceAll :: "re \<Rightarrow> (caps \<Rightarrow> string) \<Rightarrow> string \<Rightarrow> string" where
  "replaceAll r f w = gsubFrom r f None w"

text \<open>The replacement templates the source uses: \<^verbatim>\<open>'$1'\<close> and literal text.\<close>

definition dollar1 :: "caps \<Rightarrow> string" where
  "dollar1 c = (case c 1 of None \<Rightarrow> [] | Some g \<Rightarrow> g)"

definition literal :: "string \<Rightarrow> caps \<Rightarrow> string" where
  "literal t c = t"

text \<open>
  \<^verbatim>\<open>str.split(re)\<close>: a separator is looked for at each position \<open>q\<close>; a match that ends at
  the start of the current piece is skipped. The separators of the source have no
  capturing group, so nothing but the pieces is pushed.
\<close>

function splitFrom :: "re \<Rightarrow> string \<Rightarrow> char option \<Rightarrow> string \<Rightarrow> string list" where
  "splitFrom r acc p s =
     (case s of
        [] \<Rightarrow> [rev acc]
      | x # t \<Rightarrow>
          (case ms r (p, s, Map.empty) of
             [] \<Rightarrow> splitFrom r (x # acc) (Some x) t
           | (p', s', c') # _ \<Rightarrow>
               (let k = length s - length s' in
                if k = 0 \<and> acc = [] then splitFrom r (x # acc) (Some x) t
                else rev acc # splitFrom r [] p' (drop k s))))"
  by pat_completeness auto
termination
  by (relation "measures [\<lambda>(r, acc, p, s). length s, \<lambda>(r, acc, p, s). length acc]") auto

definition split :: "re \<Rightarrow> string \<Rightarrow> string list" where
  "split r w =
     (if w = [] then (if ms r (None, [], Map.empty) = [] then [[]] else [])
      else splitFrom r [] None w)"

subsection \<open>Building expressions\<close>

fun seqs :: "re list \<Rightarrow> re" where
  "seqs [] = Eps"
| "seqs [r] = r"
| "seqs (r # rs) = Seq r (seqs rs)"

definition lit :: "char \<Rightarrow> re" where
  "lit a = Chr (\<lambda>x. x = a)"

text \<open>
  A literal character under the \<^verbatim>\<open>i\<close> flag: two code units match when they are the two
  cases of one letter.
\<close>

definition liti :: "char \<Rightarrow> re" where
  "liti a = Chr (\<lambda>x. toLowerC x = toLowerC a)"

definition lits :: "string \<Rightarrow> re" where
  "lits w = seqs (map lit w)"

definition litsi :: "string \<Rightarrow> re" where
  "litsi w = seqs (map liti w)"

abbreviation digit :: re where
  "digit \<equiv> Chr isDigit"

abbreviation rplus :: "re \<Rightarrow> re" where
  "rplus r \<equiv> Rep 1 None True r"

abbreviation rstar :: "re \<Rightarrow> re" where
  "rstar r \<equiv> Rep 0 None True r"

abbreviation ropt :: "re \<Rightarrow> re" where
  "ropt r \<equiv> Rep 0 (Some 1) True r"

abbreviation rtimes :: "nat \<Rightarrow> nat \<Rightarrow> re \<Rightarrow> re" where
  "rtimes m n r \<equiv> Rep m (Some n) True r"

section \<open>The host\<close>

text \<open>
  What the program takes from its host: the local time zone, as the offset function
  \<^verbatim>\<open>LocalTZA(t, isUTC)\<close> of the language definition; the part of \<^verbatim>\<open>Date.parse\<close> that the
  language leaves to the implementation (the result on strings that are not in the
  standard date-time format); and the text that stands for an upper-case form above 255.
\<close>

record env =
  localTZA :: "int \<Rightarrow> bool \<Rightarrow> int"
  legacyParse :: "string \<Rightarrow> int option"
  upperBeyond :: "char \<Rightarrow> string"

section \<open>Brand labels\<close>

text \<open>
  \<^verbatim>\<open>normalizeBrand\<close> of \<^verbatim>\<open>src/app/page.tsx\<close> (the copy in the older page is the same):
  \<^verbatim>\<open>
  if (!name) return 'Unknown'
  let brand = name.trim().replace(/^_+/, '')
  brand = brand.split(/[\s.]+/)
    .map((w) => w.charAt(0).toUpperCase() + w.slice(1).toLowerCase()).join('.')
  brand = brand.replace(/\.Com\b/i, '.com').replace(/\.Au\b/i, '.au')
  \<close>
\<close>

definition reLeadingUnderscores :: re where
  "reLeadingUnderscores = Seq Bol (rplus (lit CHR ''_''))"

definition reBrandSep :: re where
  "reBrandSep = rplus (Chr (\<lambda>x. isSpace x \<or> x = CHR ''.''))"

definition reDotCom :: re where
  "reDotCom = Seq (lit CHR ''.'') (Seq (litsi ''Com'') Wb)"

definition reDotAu :: re where
  "reDotAu = Seq (lit CHR ''.'') (Seq (litsi ''Au'') Wb)"

text \<open>\<^verbatim>\<open>w.charAt(0).toUpperCase() + w.slice(1).toLowerCase()\<close>\<close>

definition capitalize :: "env \<Rightarrow> string \<Rightarrow> string" where
  "capitalize e w = (case w of [] \<Rightarrow> [] | x # t \<Rightarrow> toUpperC (upperBeyond e) x @ toLowerCase t)"

definition normalizeBrand :: "env \<Rightarrow> string option \<Rightarrow> string" where
  "normalizeBrand e name =
     (case name of
        None \<Rightarrow> ''Unknown''
      | Some n \<Rightarrow>
          if n = [] then ''Unknown''
          else
            (let brand = replace1 reLeadingUnderscores (literal []) (trim n);
                 brand = join ''.'' (map (capitalize e) (split reBrandSep brand));
                 brand = replace1 reDotAu (literal ''.au'') (replace1 reDotCom (literal ''.com'') brand)
             in brand))"

section \<open>The UTC flag\<close>

text \<open>
  \<^verbatim>\<open>
  const isIsoUTC = (s?: string) =>
    typeof s === 'string' && /\d{4}-\d{2}-\d{2}T\d{2}:\d{2}:\d{2}(?:\.\d+)?Z$/.test(s.trim())
  \<close>
\<close>

definition reIsoUTC :: re where
  "reIsoUTC =
     seqs [rtimes 4 4 digit, lit CHR ''-'', rtimes 2 2 digit, lit CHR ''-'', rtimes 2 2 digit,
           lit CHR ''T'', rtimes 2 2 digit, lit CHR '':'', rtimes 2 2 digit, lit CHR '':'',
           rtimes 2 2 digit, ropt (Seq (lit CHR ''.'') (rplus digit)), lit CHR ''Z'', Eol]"

definition isIsoUTC :: "string option \<Rightarrow> bool" where
  "isIsoUTC s = (case s of None \<Rightarrow> False | Some w \<Rightarrow> test reIsoUTC (trim w))"

section \<open>Time values and calendar fields\<close>

text \<open>
  A JavaScript \<^verbatim>\<open>Date\<close> holds a time value, the milliseconds since the epoch in UTC, or
  is invalid; it is modelled as \<^typ>\<open>int option\<close> with \<open>None\<close> for \<^verbatim>\<open>Invalid Date\<close>. The
  calendar functions are those of the language definition (\<^verbatim>\<open>Day\<close>, \<^verbatim>\<open>DayFromYear\<close>,
  \<^verbatim>\<open>YearFromTime\<close>, \<^verbatim>\<open>MonthFromTime\<close>, \<^verbatim>\<open>DateFromTime\<close>, \<^verbatim>\<open>MakeDay\<close>,
  \<^verbatim>\<open>MakeTime\<close>, \<^verbatim>\<open>MakeDate\<close>, \<^verbatim>\<open>TimeClip\<close>).
\<close>

definition msPerDay :: int where
  "msPerDay = 86400000"

definition Day :: "int \<Rightarrow> int" where
  "Day t = t div msPerDay"

definition TimeWithinDay :: "int \<Rightarrow> int" where
  "TimeWithinDay t = t mod msPerDay"

definition DayFromYear :: "int \<Rightarrow> int" where
  "DayFromYear y =
     365 * (y - 1970) + (y - 1969) div 4 - (y - 1901) div 100 + (y - 1601) div 400"

definition InLeapYear :: "int \<Rightarrow> bool" where
  "InLeapYear y = (y mod 4 = 0 \<and> (y mod 100 \<noteq> 0 \<or> y mod 400 = 0))"

text \<open>
  The year of a day number: the largest \<open>y\<close> with \<open>DayFromYear y \<le> d\<close>. It is computed from
  the estimate \<open>1970 + \<lfloor>400 d / 146097\<rfloor>\<close>, which is at most one year off.
\<close>

definition YearFromDay :: "int \<Rightarrow> int" where
  "YearFromDay d =
     (let y0 = 1970 + (400 * d) div 146097 in
      if DayFromYear (y0 + 1) \<le> d then y0 + 1
      else if DayFromYear y0 \<le> d then y0
      else y0 - 1)"

definition YearFromTime :: "int \<Rightarrow> int" where
  "YearFromTime t = YearFromDay (Day t)"

text \<open>The day number within the year at which month \<open>m\<close> (0 to 11) starts.\<close>

definition monthStart :: "bool \<Rightarrow> int \<Rightarrow> int" where
  "monthStart leap m =
     (if m \<le> 0 then 0
      else if m = 1 then 31
      else [59, 90, 120, 151, 181, 212, 243, 273, 304, 334] ! nat (min m 11 - 2)
           + (if leap then 1 else 0))"

definition DayWithinYear :: "int \<Rightarrow> int" where
  "DayWithinYear t = Day t - DayFromYear (YearFromTime t)"

definition monthOfDay :: "bool \<Rightarrow> int \<Rightarrow> int" where
  "monthOfDay leap dwy = int (length (filter (\<lambda>m. monthStart leap m \<le> dwy) [1, 2, 3, 4, 5, 6, 7, 8, 9, 10, 11]))"

definition MonthFromTime :: "int \<Rightarrow> int" where
  "MonthFromTime t = monthOfDay (InLeapYear (YearFromTime t)) (DayWithinYear t)"

definition DateFromTime :: "int \<Rightarrow> int" where
  "DateFromTime t =
     DayWithinYear t - monthStart (InLeapYear (YearFromTime t)) (MonthFromTime t) + 1"

definition HourFromTime :: "int \<Rightarrow> int" where
  "HourFromTime t = (t div 3600000) mod 24"

definition MinFromTime :: "int \<Rightarrow> int" where
  "MinFromTime t = (t div 60000) mod 60"

definition SecFromTime :: "int \<Rightarrow> int" where
  "SecFromTime t = (t div 1000) mod 60"

definition MakeTime :: "int \<Rightarrow> int \<Rightarrow> int \<Rightarrow> int \<Rightarrow> int" where
  "MakeTime h m s milli = h * 3600000 + m * 60000 + s * 1000 + milli"

definition MakeDay :: "int \<Rightarrow> int \<Rightarrow> int \<Rightarrow> int" where
  "MakeDay year month date =
     (let ym = year + month div 12; mn = month mod 12
      in DayFromYear ym + monthStart (InLeapYear ym) mn + date - 1)"

definition MakeDate :: "int \<Rightarrow> int \<Rightarrow> int" where
  "MakeDate day time = day * msPerDay + time"

definition TimeClip :: "int \<Rightarrow> int option" where
  "TimeClip t = (if \<bar>t\<bar> \<le> 8640000000000000 then Some t else None)"

definition LocalTime :: "env \<Rightarrow> int \<Rightarrow> int" where
  "LocalTime e t = t + localTZA e t True"

definition UTC :: "env \<Rightarrow> int \<Rightarrow> int" where
  "UTC e t = t - localTZA e t False"

definition getFullYear :: "env \<Rightarrow> int \<Rightarrow> int" where
  "getFullYear e t = YearFromTime (LocalTime e t)"

definition getMonth :: "env \<Rightarrow> int \<Rightarrow> int" where
  "getMonth e t = MonthFromTime (LocalTime e t)"

definition getDate :: "env \<Rightarrow> int \<Rightarrow> int" where
  "getDate e t = DateFromTime (LocalTime e t)"

text \<open>
  \<^verbatim>\<open>new Date(year, month, day, hours, minutes, seconds)\<close>: the fields are local time, a
  year from 0 to 99 means 1900 + year, and fields out of range carry over.
\<close>

definition newDate :: "env \<Rightarrow> int \<Rightarrow> int \<Rightarrow> int \<Rightarrow> int \<Rightarrow> int \<Rightarrow> int \<Rightarrow> int option" where
  "newDate e year month day hours minutes seconds =
     (let yr = (if 0 \<le> year \<and> year \<le> 99 then 1900 + year else year)
      in TimeClip (UTC e (MakeDate (MakeDay yr month day) (MakeTime hours minutes seconds 0))))"

subsection \<open>Numbers and text\<close>

definition digitVal :: "char \<Rightarrow> int" where
  "digitVal x = int (length (takeWhile (\<lambda>d. d \<noteq> x) ''0123456789''))"

text \<open>\<^verbatim>\<open>Number(s)\<close> on a string of decimal digits.\<close>

definition Number :: "string \<Rightarrow> int" where
  "Number w = foldl (\<lambda>a x. 10 * a + digitVal x) 0 w"

text \<open>The decimal digits of a number that is not negative.\<close>

function showDigits :: "int \<Rightarrow> string" where
  "showDigits n =
     (if n < 10 then [''0123456789'' ! nat n]
      else showDigits (n div 10) @ [''0123456789'' ! nat (n mod 10)])"
  by pat_completeness auto
termination
  by (relation "measure nat") auto

text \<open>\<^verbatim>\<open>String(n)\<close> on an integer.\<close>

definition String :: "int \<Rightarrow> string" where
  "String i = (if i < 0 then CHR ''-'' # showDigits (- i) else showDigits i)"

definition padStart :: "nat \<Rightarrow> char \<Rightarrow> string \<Rightarrow> string" where
  "padStart n x w = replicate (n - length w) x @ w"

text \<open>
  \<^verbatim>\<open>
  const dateKey = (d: Date) =>
    `${d.getFullYear()}-${String(d.getMonth() + 1).padStart(2, '0')}-${String(d.getDate()).padStart(2, '0')}`
  \<close>
  and \<^verbatim>\<open>dateKeyUTC\<close>, the same on the UTC fields.
\<close>

definition dateKey :: "env \<Rightarrow> int \<Rightarrow> string" where
  "dateKey e d =
     String (getFullYear e d) @ ''-'' @ padStart 2 CHR ''0'' (String (getMonth e d + 1))
       @ ''-'' @ padStart 2 CHR ''0'' (String (getDate e d))"

definition dateKeyUTC :: "int \<Rightarrow> string" where
  "dateKeyUTC d =
     String (YearFromTime d) @ ''-'' @ padStart 2 CHR ''0'' (String (MonthFromTime d + 1))
       @ ''-'' @ padStart 2 CHR ''0'' (String (DateFromTime d))"

section \<open>\<^verbatim>\<open>Date.parse\<close> and \<^verbatim>\<open>toISOString\<close>\<close>

text \<open>
  \<^verbatim>\<open>new Date(string)\<close> parses with \<^verbatim>\<open>Date.parse\<close>. On a string in the date-time format of the
  language definition (\<^verbatim>\<open>YYYY-MM-DDTHH:mm:ss.sssZ\<close> and its shorter forms, years of four
  digits or signed with six) with every field in range the result is fixed: a date-only
  form is UTC, a date-time form without offset is local time. On any other string the
  result is the implementation's, \<open>legacyParse\<close>.
\<close>

definition eat :: "char \<Rightarrow> string \<Rightarrow> string option" where
  "eat a w = (case w of [] \<Rightarrow> None | x # t \<Rightarrow> if x = a then Some t else None)"

definition takeDigits :: "nat \<Rightarrow> string \<Rightarrow> (int \<times> string) option" where
  "takeDigits n w =
     (if n \<le> length w \<and> list_all isDigit (take n w) then Some (Number (take n w), drop n w)
      else None)"

definition isoYear :: "string \<Rightarrow> (int \<times> string) option" where
  "isoYear w =
     (case w of
        [] \<Rightarrow> None
      | x # t \<Rightarrow>
          if x = CHR ''+'' \<or> x = CHR ''-'' then
            (case takeDigits 6 t of
               None \<Rightarrow> None
             | Some (y, r) \<Rightarrow>
                 if x = CHR ''-'' then (if y = 0 then None else Some (- y, r)) else Some (y, r))
          else takeDigits 4 w)"

definition isoDate :: "string \<Rightarrow> (int \<times> int \<times> int \<times> string) option" where
  "isoDate w =
     (case isoYear w of
        None \<Rightarrow> None
      | Some (y, r) \<Rightarrow>
          (case eat CHR ''-'' r of
             None \<Rightarrow> Some (y, 1, 1, r)
           | Some r1 \<Rightarrow>
               (case takeDigits 2 r1 of
                  None \<Rightarrow> None
                | Some (m, r2) \<Rightarrow>
                    (case eat CHR ''-'' r2 of
                       None \<Rightarrow> Some (y, m, 1, r2)
                     | Some r3 \<Rightarrow>
                         (case takeDigits 2 r3 of
                            None \<Rightarrow> None
                          | Some (d, r4) \<Rightarrow> Some (y, m, d, r4))))))"

text \<open>Seconds and milliseconds after \<^verbatim>\<open>HH:mm\<close>, both optional.\<close>

definition isoSeconds :: "string \<Rightarrow> (int \<times> int \<times> string) option" where
  "isoSeconds r =
     (case eat CHR '':'' r of
        None \<Rightarrow> Some (0, 0, r)
      | Some r1 \<Rightarrow>
          (case takeDigits 2 r1 of
             None \<Rightarrow> None
           | Some (ss, r2) \<Rightarrow>
               (case eat CHR ''.'' r2 of
                  None \<Rightarrow> Some (ss, 0, r2)
                | Some r3 \<Rightarrow>
                    (case takeDigits 3 r3 of
                       None \<Rightarrow> None
                     | Some (milli, r4) \<Rightarrow> Some (ss, milli, r4)))))"

text \<open>The offset: \<open>Some None\<close> when there is none (local time), \<open>Some (Some ms)\<close> otherwise.\<close>

definition isoZone :: "string \<Rightarrow> int option option" where
  "isoZone r =
     (if r = [] then Some None
      else if r = ''Z'' then Some (Some 0)
      else
        (case r of
           [] \<Rightarrow> None
         | x # r1 \<Rightarrow>
             if x = CHR ''+'' \<or> x = CHR ''-'' then
               (case takeDigits 2 r1 of
                  None \<Rightarrow> None
                | Some (h, r2) \<Rightarrow>
                    (case eat CHR '':'' r2 of
                       None \<Rightarrow> None
                     | Some r3 \<Rightarrow>
                         (case takeDigits 2 r3 of
                            None \<Rightarrow> None
                          | Some (m, r4) \<Rightarrow>
                              if r4 = [] \<and> h \<le> 23 \<and> m \<le> 59
                              then Some (Some ((if x = CHR ''-'' then - 1 else 1) * (h * 3600000 + m * 60000)))
                              else None)))
             else None))"

definition isoTime :: "string \<Rightarrow> (int \<times> int \<times> int \<times> int \<times> int option) option" where
  "isoTime r =
     (case eat CHR ''T'' r of
        None \<Rightarrow> None
      | Some r1 \<Rightarrow>
          (case takeDigits 2 r1 of
             None \<Rightarrow> None
           | Some (hh, r2) \<Rightarrow>
               (case eat CHR '':'' r2 of
                  None \<Rightarrow> None
                | Some r3 \<Rightarrow>
                    (case takeDigits 2 r3 of
                       None \<Rightarrow> None
                     | Some (mm, r4) \<Rightarrow>
                         (case isoSeconds r4 of
                            None \<Rightarrow> None
                          | Some (ss, milli, r5) \<Rightarrow>
                              (case isoZone r5 of
                                 None \<Rightarrow> None
                               | Some z \<Rightarrow> Some (hh, mm, ss, milli, z)))))))"

definition daysInMonth :: "int \<Rightarrow> int \<Rightarrow> int" where
  "daysInMonth y m =
     (if m = 2 then (if InLeapYear y then 29 else 28)
      else if m = 4 \<or> m = 6 \<or> m = 9 \<or> m = 11 then 30 else 31)"

definition isoParse :: "env \<Rightarrow> string \<Rightarrow> int option" where
  "isoParse e w =
     (case isoDate w of
        None \<Rightarrow> None
      | Some (y, m, d, r) \<Rightarrow>
          if \<not> (1 \<le> m \<and> m \<le> 12 \<and> 1 \<le> d \<and> d \<le> daysInMonth y m) then None
          else if r = [] then TimeClip (MakeDate (MakeDay y (m - 1) d) 0)
          else
            (case isoTime r of
               None \<Rightarrow> None
             | Some (hh, mm, ss, milli, z) \<Rightarrow>
                 if mm \<le> 59 \<and> ss \<le> 59 \<and> (hh \<le> 23 \<or> (hh = 24 \<and> mm = 0 \<and> ss = 0 \<and> milli = 0)) then
                   (let tv = MakeDate (MakeDay y (m - 1) d) (MakeTime hh mm ss milli)
                    in TimeClip (case z of None \<Rightarrow> UTC e tv | Some off \<Rightarrow> tv - off))
                 else None))"

definition dateParse :: "env \<Rightarrow> string \<Rightarrow> int option" where
  "dateParse e w =
     (case isoParse e w of
        Some t \<Rightarrow> Some t
      | None \<Rightarrow> (case legacyParse e w of None \<Rightarrow> None | Some t \<Rightarrow> TimeClip t))"

datatype jserror = TypeError | RangeError

definition isoYearText :: "int \<Rightarrow> string" where
  "isoYearText y =
     (if 0 \<le> y \<and> y \<le> 9999 then padStart 4 CHR ''0'' (String y)
      else (if y < 0 then CHR ''-'' else CHR ''+'') # padStart 6 CHR ''0'' (String \<bar>y\<bar>))"

text \<open>\<^verbatim>\<open>toISOString\<close> throws a \<^verbatim>\<open>RangeError\<close> on an invalid date.\<close>

definition toISOString :: "int option \<Rightarrow> jserror + string" where
  "toISOString d =
     (case d of
        None \<Rightarrow> Inl RangeError
      | Some t \<Rightarrow>
          Inr (isoYearText (YearFromTime t) @ ''-'' @ padStart 2 CHR ''0'' (String (MonthFromTime t + 1))
               @ ''-'' @ padStart 2 CHR ''0'' (String (DateFromTime t))
               @ ''T'' @ padStart 2 CHR ''0'' (String (HourFromTime t))
               @ '':'' @ padStart 2 CHR ''0'' (String (MinFromTime t))
               @ '':'' @ padStart 2 CHR ''0'' (String (SecFromTime t))
               @ ''.'' @ padStart 3 CHR ''0'' (String (t mod 1000)) @ ''Z''))"

text \<open>\<^verbatim>\<open>str.replace('T', ' ')\<close>: the first occurrence of a character.\<close>

definition replaceChar :: "char \<Rightarrow> char \<Rightarrow> string \<Rightarrow> string" where
  "replaceChar a b w =
     takeWhile (\<lambda>x. x \<noteq> a) w @ (case dropWhile (\<lambda>x. x \<noteq> a) w of [] \<Rightarrow> [] | x # t \<Rightarrow> b # t)"

text \<open>\<^verbatim>\<open>date.toISOString().slice(0, 19).replace('T', ' ')\<close>\<close>

definition mysqlText :: "int option \<Rightarrow> jserror + string" where
  "mysqlText d =
     (case toISOString d of Inl err \<Rightarrow> Inl err | Inr txt \<Rightarrow> Inr (replaceChar CHR ''T'' CHR '' '' (take 19 txt)))"

section \<open>The date normalizer\<close>

subsection \<open>Cleanup\<close>

text \<open>
  The display path (\<^verbatim>\<open>parseDate\<close>, \<^verbatim>\<open>src/app/page.tsx\<close>):
  \<^verbatim>\<open>
  const raw = String(ts).trim()
  const cleaned = raw
    .replace(/(\d+)(st|nd|rd|th)/gi, '$1')
    .replace(/from IP.*$/i, '')
    .replace(/Updated|Created/gi, '')
    .replace(/\s+GMT[+\-]\d{2,4}$/i, '')
    .trim()
  \<close>
  The storage path (\<^verbatim>\<open>parseDateToMySQL\<close>, \<^verbatim>\<open>src/app/api/tickets/route.js\<close>) applies the first
  three replacements and the final \<^verbatim>\<open>trim\<close> to the string as it came.
\<close>

definition reOrdinal :: re where
  "reOrdinal =
     Seq (Grp 1 (rplus digit))
         (Grp 2 (Alt (litsi ''st'') (Alt (litsi ''nd'') (Alt (litsi ''rd'') (litsi ''th'')))))"

definition reFromIP :: re where
  "reFromIP = seqs [litsi ''from IP'', rstar (Chr isDot), Eol]"

definition reUpdatedCreated :: re where
  "reUpdatedCreated = Alt (litsi ''Updated'') (litsi ''Created'')"

definition reGMT :: re where
  "reGMT =
     seqs [rplus (Chr isSpace), litsi ''GMT'', Chr (\<lambda>x. x = CHR ''+'' \<or> x = CHR ''-''),
           rtimes 2 4 digit, Eol]"

definition cleanCommon :: "string \<Rightarrow> string" where
  "cleanCommon w =
     replaceAll reUpdatedCreated (literal [])
       (replace1 reFromIP (literal []) (replaceAll reOrdinal dollar1 w))"

definition cleanDisplay :: "string \<Rightarrow> string" where
  "cleanDisplay ts = trim (replace1 reGMT (literal []) (cleanCommon (trim ts)))"

definition cleanStorage :: "string \<Rightarrow> string" where
  "cleanStorage dateString = trim (cleanCommon dateString)"

subsection \<open>The display path\<close>

definition monthMap :: "(string \<times> int) list" where
  "monthMap =
     [(''jan'', 0), (''january'', 0), (''feb'', 1), (''february'', 1), (''mar'', 2), (''march'', 2),
      (''apr'', 3), (''april'', 3), (''may'', 4), (''jun'', 5), (''june'', 5), (''jul'', 6),
      (''july'', 6), (''aug'', 7), (''august'', 7), (''sep'', 8), (''sept'', 8), (''september'', 8),
      (''oct'', 9), (''october'', 9), (''nov'', 10), (''november'', 10), (''dec'', 11),
      (''december'', 11)]"

text \<open>
  \<^verbatim>\<open>/([A-Za-z]{3,9})\.?\s+(\d{1,2}),?\s*(\d{4})?[,\s]*?(\d{1,2}):(\d{2})(?::(\d{2}))?\s*(AM|PM)?/i\<close>
\<close>

definition reMonthTime :: re where
  "reMonthTime =
     seqs [Grp 1 (rtimes 3 9 (Chr isAlpha)), ropt (lit CHR ''.''), rplus (Chr isSpace),
           Grp 2 (rtimes 1 2 digit), ropt (lit CHR '',''), rstar (Chr isSpace),
           ropt (Grp 3 (rtimes 4 4 digit)),
           Rep 0 None False (Chr (\<lambda>x. x = CHR '','' \<or> isSpace x)),
           Grp 4 (rtimes 1 2 digit), lit CHR '':'', Grp 5 (rtimes 2 2 digit),
           ropt (Seq (lit CHR '':'') (Grp 6 (rtimes 2 2 digit))), rstar (Chr isSpace),
           ropt (Grp 7 (Alt (litsi ''AM'') (litsi ''PM'')))]"

text \<open>\<^verbatim>\<open>/([A-Za-z]{3,9})\.?\s+(\d{1,2}),?\s*(\d{4})?/i\<close>\<close>

definition reMonthOnly :: re where
  "reMonthOnly =
     seqs [Grp 1 (rtimes 3 9 (Chr isAlpha)), ropt (lit CHR ''.''), rplus (Chr isSpace),
           Grp 2 (rtimes 1 2 digit), ropt (lit CHR '',''), rstar (Chr isSpace),
           ropt (Grp 3 (rtimes 4 4 digit))]"

text \<open>\<^verbatim>\<open>/(\d{4})[-\/](\d{1,2})[-\/](\d{1,2})/\<close> and \<^verbatim>\<open>/(\d{1,2})[\/\-](\d{1,2})[\/\-](\d{4})/\<close>\<close>

abbreviation dashOrSlash :: re where
  "dashOrSlash \<equiv> Chr (\<lambda>x. x = CHR ''-'' \<or> x = CHR ''/'')"

definition reYMD :: re where
  "reYMD =
     seqs [Grp 1 (rtimes 4 4 digit), dashOrSlash, Grp 2 (rtimes 1 2 digit), dashOrSlash,
           Grp 3 (rtimes 1 2 digit)]"

definition reMDY :: re where
  "reMDY =
     seqs [Grp 1 (rtimes 1 2 digit), dashOrSlash, Grp 2 (rtimes 1 2 digit), dashOrSlash,
           Grp 3 (rtimes 4 4 digit)]"

text \<open>A capture read as a string; one that did not take part reads as \<^verbatim>\<open>undefined\<close>.\<close>

definition grp :: "caps \<Rightarrow> nat \<Rightarrow> string" where
  "grp c i = (case c i of None \<Rightarrow> ''undefined'' | Some g \<Rightarrow> g)"

text \<open>A capture as a condition: \<^verbatim>\<open>undefined\<close> and the empty string are falsy.\<close>

definition truthy :: "caps \<Rightarrow> nat \<Rightarrow> bool" where
  "truthy c i = (case c i of None \<Rightarrow> False | Some g \<Rightarrow> g \<noteq> [])"

definition saneYear :: "int \<Rightarrow> int \<Rightarrow> bool" where
  "saneYear nowYear y = (2000 \<le> y \<and> y \<le> nowYear + 2)"

text \<open>\<^verbatim>\<open>!isNaN(d.getTime()) && saneYear(d.getFullYear())\<close>\<close>

definition accepted :: "env \<Rightarrow> int \<Rightarrow> int option \<Rightarrow> bool" where
  "accepted e nowYear d = (case d of None \<Rightarrow> False | Some t \<Rightarrow> saneYear nowYear (getFullYear e t))"

text \<open>The hour of strategy 2 after the AM/PM adjustment.\<close>

definition hour24 :: "caps \<Rightarrow> int \<Rightarrow> int" where
  "hour24 c hour =
     (if truthy c 7 then
        (let h1 = (if test (litsi ''pm'') (grp c 7) \<and> hour < 12 then hour + 12 else hour)
         in if test (litsi ''am'') (grp c 7) \<and> h1 = 12 then 0 else h1)
      else hour)"

definition strategy2 :: "env \<Rightarrow> int \<Rightarrow> string \<Rightarrow> int option" where
  "strategy2 e nowYear cleaned =
     (case exec reMonthTime cleaned of
        None \<Rightarrow> None
      | Some (b, m, c, a) \<Rightarrow>
          (let monthName = toLowerCase (grp c 1);
               day = Number (grp c 2);
               year = (if truthy c 3 then Number (grp c 3) else nowYear);
               hour = hour24 c (Number (grp c 4));
               minute = Number (grp c 5);
               second = (if truthy c 6 then Number (grp c 6) else 0)
           in case map_of monthMap monthName of
                None \<Rightarrow> None
              | Some mi \<Rightarrow>
                  (let d = newDate e year mi day hour minute second
                   in if accepted e nowYear d then d else None)))"

definition strategy3 :: "env \<Rightarrow> int \<Rightarrow> string \<Rightarrow> int option" where
  "strategy3 e nowYear cleaned =
     (case exec reMonthOnly cleaned of
        None \<Rightarrow> None
      | Some (b, m, c, a) \<Rightarrow>
          (let day = Number (grp c 2);
               year = (if truthy c 3 then Number (grp c 3) else nowYear)
           in case map_of monthMap (toLowerCase (grp c 1)) of
                None \<Rightarrow> None
              | Some mi \<Rightarrow>
                  (let d = newDate e year mi day 0 0 0
                   in if accepted e nowYear d then d else None)))"

definition strategy4 :: "env \<Rightarrow> int \<Rightarrow> string \<Rightarrow> int option" where
  "strategy4 e nowYear cleaned =
     (case exec reYMD cleaned of
        None \<Rightarrow> None
      | Some (b, m, c, a) \<Rightarrow>
          (let d = newDate e (Number (grp c 1)) (Number (grp c 2) - 1) (Number (grp c 3)) 0 0 0
           in if accepted e nowYear d then d else None))"

definition strategy5 :: "env \<Rightarrow> int \<Rightarrow> string \<Rightarrow> int option" where
  "strategy5 e nowYear cleaned =
     (case exec reMDY cleaned of
        None \<Rightarrow> None
      | Some (b, m, c, a) \<Rightarrow>
          (let d = newDate e (Number (grp c 3)) (Number (grp c 1) - 1) (Number (grp c 2)) 0 0 0
           in if accepted e nowYear d then d else None))"

text \<open>
  \<^verbatim>\<open>parseDate\<close>. The argument \<open>now\<close> is the clock reading of \<^verbatim>\<open>new Date().getFullYear()\<close>, which
  the function takes once, after the test for an absent or empty string. A strategy whose
  result is rejected falls through to the next one.
\<close>

definition parseCleaned :: "env \<Rightarrow> int \<Rightarrow> string \<Rightarrow> int option" where
  "parseCleaned e nowYear cleaned =
     (let d = dateParse e cleaned in
      if accepted e nowYear d then d
      else
        (case strategy2 e nowYear cleaned of
           Some t \<Rightarrow> Some t
         | None \<Rightarrow>
             (case strategy3 e nowYear cleaned of
                Some t \<Rightarrow> Some t
              | None \<Rightarrow>
                  (case strategy4 e nowYear cleaned of
                     Some t \<Rightarrow> Some t
                   | None \<Rightarrow> strategy5 e nowYear cleaned))))"

definition parseDate :: "env \<Rightarrow> int \<Rightarrow> string option \<Rightarrow> int option" where
  "parseDate e now ts =
     (case ts of
        None \<Rightarrow> None
      | Some w \<Rightarrow> if w = [] then None else parseCleaned e (getFullYear e now) (cleanDisplay w))"

subsection \<open>The storage path\<close>

text \<open>
  \<^verbatim>\<open>/([A-Za-z]{3,9})\s+(\d{1,2}),?\s*(\d{4})?\s*(\d{1,2}:\d{2}(:\d{2})?\s*(AM|PM)?)/i\<close>
\<close>

definition reStorage :: re where
  "reStorage =
     seqs [Grp 1 (rtimes 3 9 (Chr isAlpha)), rplus (Chr isSpace), Grp 2 (rtimes 1 2 digit),
           ropt (lit CHR '',''), rstar (Chr isSpace), ropt (Grp 3 (rtimes 4 4 digit)),
           rstar (Chr isSpace),
           Grp 4 (seqs [rtimes 1 2 digit, lit CHR '':'', rtimes 2 2 digit,
                        ropt (Grp 5 (Seq (lit CHR '':'') (rtimes 2 2 digit))), rstar (Chr isSpace),
                        ropt (Grp 6 (Alt (litsi ''AM'') (litsi ''PM'')))])]"

text \<open>
  The value of a JSON field as \<^verbatim>\<open>parseDateToMySQL\<close> receives it: absent (or \<^verbatim>\<open>null\<close>), a string,
  or any other value, of which only the truthiness matters. The wall clock is a sequence of
  readings; \<open>clk n\<close> is the reading of the \<open>n\<close>-th \<^verbatim>\<open>new Date()\<close> of a call.
\<close>

datatype field = Missing | Text string | Other bool

type_synonym clock = "nat \<Rightarrow> int"

definition falsy :: "field \<Rightarrow> bool" where
  "falsy v = (case v of Missing \<Rightarrow> True | Text w \<Rightarrow> w = [] | Other b \<Rightarrow> \<not> b)"

text \<open>
  The body of the \<^verbatim>\<open>try\<close> block. A value that is not a string has no \<^verbatim>\<open>replace\<close> method: the
  call throws a \<^verbatim>\<open>TypeError\<close>. An error is returned with the number of clock readings taken.
\<close>

definition storageTry :: "env \<Rightarrow> clock \<Rightarrow> field \<Rightarrow> (jserror \<times> nat) + string" where
  "storageTry e clk v =
     (case v of
        Missing \<Rightarrow> Inl (TypeError, 0)
      | Other b \<Rightarrow> Inl (TypeError, 0)
      | Text dateString \<Rightarrow>
          (let cleaned = cleanStorage dateString;
               date = dateParse e cleaned;
               (date, n) =
                 (if date = None then
                    (case exec reStorage cleaned of
                       None \<Rightarrow> (date, 0)
                     | Some (b, m, c, a) \<Rightarrow>
                         (let (year, n) = (if truthy c 3 then (grp c 3, 0)
                                           else (String (getFullYear e (clk 0)), Suc 0));
                              normalized = grp c 1 @ '' '' @ grp c 2 @ '', '' @ year @ '' '' @ grp c 4
                          in (dateParse e normalized, n)))
                  else (date, 0));
               (date, n) = (if date = None then (Some (clk n), Suc n) else (date, n))
           in case mysqlText date of Inl err \<Rightarrow> Inl (err, n) | Inr r \<Rightarrow> Inr r))"

definition parseDateToMySQL :: "env \<Rightarrow> clock \<Rightarrow> field \<Rightarrow> jserror + string" where
  "parseDateToMySQL e clk dateString =
     (if falsy dateString then mysqlText (Some (clk 0))
      else
        (case storageTry e clk dateString of
           Inr r \<Rightarrow> Inr r
         | Inl (err, n) \<Rightarrow> mysqlText (Some (clk n))))"

section \<open>The aggregator\<close>

record ticket =
  ticket_id :: string
  brand :: "string option"
  status :: "string option"
  created_at :: "string option"
  updated_at :: "string option"

text \<open>\<^verbatim>\<open>t.updated_at ?? t.created_at\<close>\<close>

definition selectedRaw :: "ticket \<Rightarrow> string option" where
  "selectedRaw t = (case updated_at t of Some u \<Rightarrow> Some u | None \<Rightarrow> created_at t)"

text \<open>
  A call of \<^verbatim>\<open>parseDate\<close> inside an aggregation, with the clock: the result and the index of
  the next reading.
\<close>

definition parseDateAt :: "env \<Rightarrow> clock \<Rightarrow> nat \<Rightarrow> string option \<Rightarrow> int option \<times> nat" where
  "parseDateAt e clk n ts =
     (case ts of
        None \<Rightarrow> (None, n)
      | Some w \<Rightarrow> if w = [] then (None, n) else (parseDate e (clk n) ts, Suc n))"

text \<open>\<^verbatim>\<open>tickets.filter(callback).length\<close>, the callback reading the clock.\<close>

fun countWith :: "(nat \<Rightarrow> 'a \<Rightarrow> bool \<times> nat) \<Rightarrow> nat \<Rightarrow> 'a list \<Rightarrow> nat \<times> nat" where
  "countWith f n [] = (0, n)"
| "countWith f n (t # ts) =
     (let (b, n1) = f n t; (k, n2) = countWith f n1 ts in ((if b then 1 else 0) + k, n2))"

text \<open>
  \<^verbatim>\<open>
  const raw = t.updated_at ?? t.created_at
  const d = parseDate(raw)
  if (!d) return false
  const isUTC = isIsoUTC(raw)
  const itemKey = isUTC ? dateKeyUTC(d) : dateKey(d)
  const todayKey = isUTC ? dateKeyUTC(new Date()) : dateKey(todayDate)
  return itemKey === todayKey
  \<close>
\<close>

definition isToday :: "env \<Rightarrow> clock \<Rightarrow> int \<Rightarrow> nat \<Rightarrow> ticket \<Rightarrow> bool \<times> nat" where
  "isToday e clk todayDate n t =
     (let raw = selectedRaw t; (d, n1) = parseDateAt e clk n raw in
      case d of
        None \<Rightarrow> (False, n1)
      | Some dt \<Rightarrow>
          if isIsoUTC raw then (dateKeyUTC dt = dateKeyUTC (clk n1), Suc n1)
          else (dateKey e dt = dateKey e todayDate, n1))"

definition ticketsToday :: "env \<Rightarrow> clock \<Rightarrow> int \<Rightarrow> ticket list \<Rightarrow> nat" where
  "ticketsToday e clk todayDate tickets = fst (countWith (isToday e clk todayDate) 0 tickets)"

text \<open>
  \<^verbatim>\<open>new Date(todayDate.getFullYear(), todayDate.getMonth(), todayDate.getDate() - 1)\<close>
\<close>

definition yesterdayDate :: "env \<Rightarrow> int \<Rightarrow> int option" where
  "yesterdayDate e todayDate =
     newDate e (getFullYear e todayDate) (getMonth e todayDate) (getDate e todayDate - 1) 0 0 0"

text \<open>The key of a date that may be invalid.\<close>

definition dateKeyOf :: "env \<Rightarrow> int option \<Rightarrow> string" where
  "dateKeyOf e d = (case d of None \<Rightarrow> ''NaN-NaN-NaN'' | Some t \<Rightarrow> dateKey e t)"

text \<open>
  \<^verbatim>\<open>
  const yRef = new Date(Date.now() - 24 * 60 * 60 * 1000)
  const yesterdayKey = isUTC ? dateKeyUTC(yRef) : dateKey(yesterdayDate)
  return itemKey === yesterdayKey
  \<close>
\<close>

definition isYesterday :: "env \<Rightarrow> clock \<Rightarrow> int \<Rightarrow> nat \<Rightarrow> ticket \<Rightarrow> bool \<times> nat" where
  "isYesterday e clk todayDate n t =
     (let raw = selectedRaw t; (d, n1) = parseDateAt e clk n raw in
      case d of
        None \<Rightarrow> (False, n1)
      | Some dt \<Rightarrow>
          (let isUTC = isIsoUTC raw;
               itemKey = (if isUTC then dateKeyUTC dt else dateKey e dt);
               yRef = clk n1 - 24 * 60 * 60 * 1000;
               yesterdayKey = (if isUTC then dateKeyUTC yRef else dateKeyOf e (yesterdayDate e todayDate))
           in (itemKey = yesterdayKey, Suc n1)))"

definition ticketsYesterday :: "env \<Rightarrow> clock \<Rightarrow> int \<Rightarrow> ticket list \<Rightarrow> nat" where
  "ticketsYesterday e clk todayDate tickets =
     fst (countWith (isYesterday e clk todayDate) 0 tickets)"

subsection \<open>Counting objects\<close>

text \<open>
  \<^verbatim>\<open>counts[key] = (counts[key] || 0) + 1\<close> on an object used as a dictionary. The object is an
  association list in insertion order; its keys are enumerated as the language orders
  them: array indices first, ascending, then the other keys in insertion order.
\<close>

definition bump :: "(string \<times> nat) list \<Rightarrow> string \<Rightarrow> (string \<times> nat) list" where
  "bump counts k =
     (case map_of counts k of
        None \<Rightarrow> counts @ [(k, 1)]
      | Some v \<Rightarrow> map (\<lambda>(k', v'). if k' = k then (k', v' + 1) else (k', v')) counts)"

definition isArrayIndex :: "string \<Rightarrow> bool" where
  "isArrayIndex k =
     (k \<noteq> [] \<and> list_all isDigit k \<and> (k = ''0'' \<or> hd k \<noteq> CHR ''0'') \<and> Number k \<le> 4294967294)"

fun insertBy :: "('a \<Rightarrow> 'a \<Rightarrow> bool) \<Rightarrow> 'a \<Rightarrow> 'a list \<Rightarrow> 'a list" where
  "insertBy le x [] = [x]"
| "insertBy le x (y # ys) = (if le x y then x # y # ys else y # insertBy le x ys)"

text \<open>A stable sort, as \<^verbatim>\<open>Array.prototype.sort\<close> is.\<close>

definition sortBy :: "('a \<Rightarrow> 'a \<Rightarrow> bool) \<Rightarrow> 'a list \<Rightarrow> 'a list" where
  "sortBy le xs = foldr (insertBy le) xs []"

definition entries :: "(string \<times> nat) list \<Rightarrow> (string \<times> nat) list" where
  "entries counts =
     sortBy (\<lambda>a b. Number (fst a) \<le> Number (fst b)) (filter (\<lambda>kv. isArrayIndex (fst kv)) counts)
       @ filter (\<lambda>kv. \<not> isArrayIndex (fst kv)) counts"

text \<open>
  \<^verbatim>\<open>a.localeCompare(b) <= 0\<close> on keys: the order of the character codes, which is the
  collation order on the digits and the hyphen the keys are made of.
\<close>

fun localeLe :: "string \<Rightarrow> string \<Rightarrow> bool" where
  "localeLe [] w = True"
| "localeLe (x # xs) [] = False"
| "localeLe (x # xs) (y # ys) =
     ((of_char x :: int) < of_char y \<or> (x = y \<and> localeLe xs ys))"

subsection \<open>Tickets per day\<close>

text \<open>
  \<^verbatim>\<open>
  tickets.forEach((t) => {
    const d = parseDate(t.updated_at ?? t.created_at)
    if (!d) return
    const key = dateKey(d)
    counts[key] = (counts[key] || 0) + 1
  })
  return Object.keys(counts).sort((a, b) => a.localeCompare(b)).map((k) => ...)
  \<close>
  Of an entry the key and the count are kept; its label is presentation.
\<close>

fun perDayCounts :: "env \<Rightarrow> clock \<Rightarrow> nat \<Rightarrow> (string \<times> nat) list \<Rightarrow> ticket list \<Rightarrow> (string \<times> nat) list" where
  "perDayCounts e clk n counts [] = counts"
| "perDayCounts e clk n counts (t # ts) =
     (let (d, n1) = parseDateAt e clk n (selectedRaw t) in
      case d of
        None \<Rightarrow> perDayCounts e clk n1 counts ts
      | Some dt \<Rightarrow> perDayCounts e clk n1 (bump counts (dateKey e dt)) ts)"

definition ticketsPerDay :: "env \<Rightarrow> clock \<Rightarrow> ticket list \<Rightarrow> (string \<times> nat) list" where
  "ticketsPerDay e clk tickets =
     sortBy (\<lambda>a b. localeLe (fst a) (fst b)) (entries (perDayCounts e clk 0 [] tickets))"

text \<open>
  The key \<^verbatim>\<open>filteredTickets\<close> compares with the key of the bar that was clicked:
  \<^verbatim>\<open>const key = isIsoUTC(raw) ? dateKeyUTC(d) : dateKey(d)\<close>
\<close>

definition filterKey :: "env \<Rightarrow> string option \<Rightarrow> int \<Rightarrow> string" where
  "filterKey e raw d = (if isIsoUTC raw then dateKeyUTC d else dateKey e d)"

subsection \<open>Tickets by brand\<close>

text \<open>
  \<^verbatim>\<open>
  tickets.forEach((t) => {
    const b = normalizeBrand(t.brand)
    counts[b] = (counts[b] || 0) + 1
  })
  return Object.entries(counts)
    .map(([brand, count]) => ({ brand, count }))
    .sort((a, b) => b.count - a.count)
  \<close>
\<close>

definition brandCounts :: "env \<Rightarrow> ticket list \<Rightarrow> (string \<times> nat) list" where
  "brandCounts e tickets = foldl (\<lambda>counts t. bump counts (normalizeBrand e (brand t))) [] tickets"

definition ticketsByBrand :: "env \<Rightarrow> ticket list \<Rightarrow> (string \<times> nat) list" where
  "ticketsByBrand e tickets = sortBy (\<lambda>a b. snd b \<le> snd a) (entries (brandCounts e tickets))"

section \<open>Concrete hosts\<close>

text \<open>
  A host in a zone with a fixed offset from UTC (in milliseconds) whose \<^verbatim>\<open>Date.parse\<close> accepts
  the standard format only, and two clocks: one that stands still and one that advances by
  a fixed step at each reading.
\<close>

definition zoneEnv :: "int \<Rightarrow> env" where
  "zoneEnv off =
     \<lparr>localTZA = (\<lambda>t isUTC. off), legacyParse = (\<lambda>w. None), upperBeyond = (\<lambda>x. [x])\<rparr>"

definition constClock :: "int \<Rightarrow> clock" where
  "constClock t n = t"

definition tickingClock :: "int \<Rightarrow> int \<Rightarrow> clock" where
  "tickingClock start step n = start + step * int n"

definition mkTicket :: "string option \<Rightarrow> string option \<Rightarrow> ticket" where
  "mkTicket b u = \<lparr>ticket_id = ''T-1'', brand = b, status = None, created_at = None, updated_at = u\<rparr>"

section \<open>Notions used in the statements and proofs\<close>

subsection \<open>The strict pattern of a UTC date-time\<close>

text \<open>
  The pattern \<^verbatim>\<open>YYYY-MM-DDTHH:MM:SS\<close>, an optional fraction of a second and a final \<^verbatim>\<open>Z\<close>, as
  a property of a whole string. In a pattern \<^verbatim>\<open>d\<close> stands for a digit and every other
  character for itself; \<open>shape\<close> returns what follows the pattern.
\<close>

fun shape :: "string \<Rightarrow> string \<Rightarrow> string option" where
  "shape [] w = Some w"
| "shape (q # qs) [] = None"
| "shape (q # qs) (x # t) =
     (if (if q = CHR ''d'' then isDigit x else x = q) then shape qs t else None)"

definition fractionZ :: "string \<Rightarrow> bool" where
  "fractionZ r =
     (r = ''Z'' \<or>
      (case r of
         [] \<Rightarrow> False
       | x # t \<Rightarrow> x = CHR ''.'' \<and> takeWhile isDigit t \<noteq> [] \<and> dropWhile isDigit t = ''Z''))"

definition shapeZ :: "string \<Rightarrow> string \<Rightarrow> bool" where
  "shapeZ pat w = (case shape pat w of None \<Rightarrow> False | Some r \<Rightarrow> fractionZ r)"

definition strictIsoZ :: "string \<Rightarrow> bool" where
  "strictIsoZ w = shapeZ ''dddd-dd-ddTdd:dd:dd'' w"

subsection \<open>The matches of a repeated character class\<close>

text \<open>
  The character before the position after consuming \<open>u\<close>, and the numbers of characters
  that \<^verbatim>\<open>[class]{mn,mx}\<close> can consume when \<open>n\<close> characters of the class are ahead, in the order
  the matcher tries them.
\<close>

definition lastOr :: "char option \<Rightarrow> string \<Rightarrow> char option" where
  "lastOr p u = (if u = [] then p else Some (last u))"

fun cands :: "nat \<Rightarrow> nat option \<Rightarrow> bool \<Rightarrow> nat \<Rightarrow> nat list" where
  "cands mn mx g n =
     (if mx = Some 0 then [0]
      else
        (let more = (case n of 0 \<Rightarrow> [] | Suc n' \<Rightarrow> map Suc (cands (mn - 1) (map_option (\<lambda>m. m - 1) mx) g n'));
             stop = (if mn = 0 then [0] else [])
         in if g then more @ stop else stop @ more))"

subsection \<open>Counting with one evaluation instant\<close>

text \<open>
  The test for "today" and for "yesterday" as a function of the ticket, of one evaluation
  instant \<open>now\<close> that stands for every clock reading of the pass, and of the anchor
  \<open>todayDate\<close>.
\<close>

definition countedToday :: "env \<Rightarrow> int \<Rightarrow> int \<Rightarrow> ticket \<Rightarrow> bool" where
  "countedToday e now todayDate t =
     (case parseDate e now (selectedRaw t) of
        None \<Rightarrow> False
      | Some d \<Rightarrow>
          if isIsoUTC (selectedRaw t) then dateKeyUTC d = dateKeyUTC now
          else dateKey e d = dateKey e todayDate)"

definition countedYesterday :: "env \<Rightarrow> int \<Rightarrow> int \<Rightarrow> ticket \<Rightarrow> bool" where
  "countedYesterday e now todayDate t =
     (case parseDate e now (selectedRaw t) of
        None \<Rightarrow> False
      | Some d \<Rightarrow>
          if isIsoUTC (selectedRaw t) then dateKeyUTC d = dateKeyUTC (now - 86400000)
          else dateKey e d = dateKeyOf e (yesterdayDate e todayDate))"

subsection \<open>Counting with the readings of a pass\<close>

text \<open>
  The clock after \<open>r\<close> readings; the test of one ticket as a function of the reading \<open>r0\<close>
  taken inside \<^verbatim>\<open>parseDate\<close>, the reading \<open>r1\<close> taken for the reference day, and the anchor; the
  number of readings one ticket takes from a clock; and the number of readings of a pass.
\<close>

definition laterClock :: "clock \<Rightarrow> nat \<Rightarrow> clock" where
  "laterClock clk r k = clk (k + r)"

definition todayTest :: "env \<Rightarrow> int \<Rightarrow> int \<Rightarrow> int \<Rightarrow> ticket \<Rightarrow> bool" where
  "todayTest e r0 r1 todayDate t =
     (case parseDate e r0 (selectedRaw t) of
        None \<Rightarrow> False
      | Some d \<Rightarrow>
          if isIsoUTC (selectedRaw t) then dateKeyUTC d = dateKeyUTC r1
          else dateKey e d = dateKey e todayDate)"

definition yesterdayTest :: "env \<Rightarrow> int \<Rightarrow> int \<Rightarrow> int \<Rightarrow> ticket \<Rightarrow> bool" where
  "yesterdayTest e r0 r1 todayDate t =
     (case parseDate e r0 (selectedRaw t) of
        None \<Rightarrow> False
      | Some d \<Rightarrow>
          if isIsoUTC (selectedRaw t) then dateKeyUTC d = dateKeyUTC (r1 - 86400000)
          else dateKey e d = dateKeyOf e (yesterdayDate e todayDate))"

definition noText :: "string option \<Rightarrow> bool" where
  "noText ts = (ts = None \<or> ts = Some [])"

definition readsToday :: "env \<Rightarrow> clock \<Rightarrow> ticket \<Rightarrow> nat" where
  "readsToday e clk t =
     (if noText (selectedRaw t) then 0
      else if parseDate e (clk 0) (selectedRaw t) \<noteq> None \<and> isIsoUTC (selectedRaw t) then 2
      else 1)"

definition readsYesterday :: "env \<Rightarrow> clock \<Rightarrow> ticket \<Rightarrow> nat" where
  "readsYesterday e clk t =
     (if noText (selectedRaw t) then 0
      else if parseDate e (clk 0) (selectedRaw t) \<noteq> None then 2
      else 1)"

definition todayReadings :: "env \<Rightarrow> clock \<Rightarrow> int \<Rightarrow> ticket list \<Rightarrow> nat" where
  "todayReadings e clk todayDate tickets = snd (countWith (isToday e clk todayDate) 0 tickets)"

definition yesterdayReadings :: "env \<Rightarrow> clock \<Rightarrow> int \<Rightarrow> ticket list \<Rightarrow> nat" where
  "yesterdayReadings e clk todayDate tickets = snd (countWith (isYesterday e clk todayDate) 0 tickets)"

subsection \<open>The pieces of a brand\<close>

text \<open>
  Splitting at the runs of separators (whitespace and full stops) as a recursive function,
  and the shape of its results: no piece holds a separator, and only the first and the last
  piece can be empty.
\<close>

definition isSep :: "char \<Rightarrow> bool" where
  "isSep x = (isSpace x \<or> x = CHR ''.'')"

function pieces :: "string \<Rightarrow> string \<Rightarrow> string list" where
  "pieces acc [] = [rev acc]"
| "pieces acc (x # t) =
     (if isSep x then rev acc # pieces [] (dropWhile isSep t) else pieces (x # acc) t)"
  by pat_completeness auto
termination
  by (relation "measure (\<lambda>(acc, s). length s)") (auto simp: length_dropWhile_le less_Suc_eq_le)

definition sepFree :: "string \<Rightarrow> bool" where
  "sepFree w = list_all (\<lambda>x. \<not> isSep x) w"

fun innerPieces :: "string list \<Rightarrow> bool" where
  "innerPieces [] = True"
| "innerPieces [q] = sepFree q"
| "innerPieces (q # r # rest) = (sepFree q \<and> q \<noteq> [] \<and> innerPieces (r # rest))"

subsection \<open>Cleanup, step by step\<close>

text \<open>
  The removals of the cleanup in the words of the specification, as functions on strings
  that scan from left to right. \<open>beginsWith k s\<close>: the string \<open>s\<close> begins with the text \<open>k\<close> in
  some letter case.
\<close>

definition beginsWith :: "string \<Rightarrow> string \<Rightarrow> bool" where
  "beginsWith k s = (map toLowerC (take (length k) s) = map toLowerC k)"

text \<open>
  An ordinal is ahead when the string begins with digits and one of \<^verbatim>\<open>st\<close>, \<^verbatim>\<open>nd\<close>, \<^verbatim>\<open>rd\<close>,
  \<^verbatim>\<open>th\<close> follows them; \<open>stripOrdinals\<close> keeps the digits of every ordinal and drops its two
  letters.
\<close>

definition ordinalAhead :: "string \<Rightarrow> bool" where
  "ordinalAhead s =
     (takeWhile isDigit s \<noteq> [] \<and>
      (beginsWith ''st'' (dropWhile isDigit s) \<or> beginsWith ''nd'' (dropWhile isDigit s)
       \<or> beginsWith ''rd'' (dropWhile isDigit s) \<or> beginsWith ''th'' (dropWhile isDigit s)))"

function stripOrdinals :: "string \<Rightarrow> string" where
  "stripOrdinals [] = []"
| "stripOrdinals (x # t) =
     (if ordinalAhead (x # t)
      then takeWhile isDigit (x # t) @ stripOrdinals (drop 2 (dropWhile isDigit (x # t)))
      else x # stripOrdinals t)"
  by pat_completeness auto
termination
  by (relation "measure length")
     (auto simp: less_Suc_eq_le intro: order_trans [OF diff_le_self length_dropWhile_le])

text \<open>\<open>cutAt Q\<close> cuts a string at the first position where the rest of it satisfies \<open>Q\<close>.\<close>

fun cutAt :: "(string \<Rightarrow> bool) \<Rightarrow> string \<Rightarrow> string" where
  "cutAt Q [] = []"
| "cutAt Q (x # t) = (if Q (x # t) then [] else x # cutAt Q t)"

text \<open>
  The text \<^verbatim>\<open>from IP\<close> with everything up to the end of the string, which the expression
  matches when no line terminator follows.
\<close>

definition fromIPTail :: "string \<Rightarrow> bool" where
  "fromIPTail s = (beginsWith ''from IP'' s \<and> list_all isDot (drop 7 s))"

definition cutFromIP :: "string \<Rightarrow> string" where
  "cutFromIP = cutAt fromIPTail"

text \<open>Every \<^verbatim>\<open>Updated\<close> and \<^verbatim>\<open>Created\<close> is dropped.\<close>

function dropWords :: "string \<Rightarrow> string" where
  "dropWords [] = []"
| "dropWords (x # t) =
     (if beginsWith ''Updated'' (x # t) \<or> beginsWith ''Created'' (x # t)
      then dropWords (drop 7 (x # t))
      else x # dropWords t)"
  by pat_completeness auto
termination
  by (relation "measure length") auto

text \<open>
  The offset annotation at the end of a string: whitespace, \<^verbatim>\<open>GMT\<close>, a sign and two to four
  digits.
\<close>

definition offsetTail :: "string \<Rightarrow> bool" where
  "offsetTail s =
     (takeWhile isSpace s \<noteq> [] \<and> beginsWith ''GMT'' (dropWhile isSpace s) \<and>
      (case drop 3 (dropWhile isSpace s) of
         [] \<Rightarrow> False
       | y # ds \<Rightarrow>
           (y = CHR ''+'' \<or> y = CHR ''-'') \<and> 2 \<le> length ds \<and> length ds \<le> 4 \<and> list_all isDigit ds))"

definition stripOffset :: "string \<Rightarrow> string" where
  "stripOffset = cutAt offsetTail"

section \<open>The year bound\<close>

lemma strategy2_accepted: "strategy2 e ny w = Some t \<Longrightarrow> accepted e ny (Some t)"
  unfolding strategy2_def Let_def
  by (simp split: option.splits prod.splits if_splits)

lemma strategy3_accepted: "strategy3 e ny w = Some t \<Longrightarrow> accepted e ny (Some t)"
  unfolding strategy3_def Let_def
  by (simp split: option.splits prod.splits if_splits)

lemma strategy4_accepted: "strategy4 e ny w = Some t \<Longrightarrow> accepted e ny (Some t)"
  unfolding strategy4_def Let_def
  by (simp split: option.splits prod.splits if_splits)

lemma strategy5_accepted: "strategy5 e ny w = Some t \<Longrightarrow> accepted e ny (Some t)"
  unfolding strategy5_def Let_def
  by (simp split: option.splits prod.splits if_splits)

lemma parseCleaned_accepted: "parseCleaned e ny w = Some t \<Longrightarrow> accepted e ny (Some t)"
  unfolding parseCleaned_def Let_def
  by (auto split: option.splits if_splits
      dest: strategy2_accepted strategy3_accepted strategy4_accepted strategy5_accepted)

lemma mysqlText_Some: "\<exists>r. mysqlText (Some t) = Inr r"
  by (simp add: mysqlText_def toISOString_def)

lemma storage_native_first:
  assumes "w \<noteq> []" and "dateParse e (cleanStorage w) = Some t"
  shows "parseDateToMySQL e clk (Text w) = mysqlText (Some t)"
proof -
  obtain r where r: "mysqlText (Some t) = Inr r"
    using mysqlText_Some by blast
  have "storageTry e clk (Text w) = Inr r"
    using assms r by (simp add: storageTry_def Let_def)
  then show ?thesis
    using assms r by (simp add: parseDateToMySQL_def falsy_def)
qed

text \<open>
  C1, as stated, fails on the storage path: the string \<^verbatim>\<open>1995-03-04\<close> is stored as the date it
  denotes, whose year is below 2000, and not as the current instant.
\<close>

theorem C1_storage_counterexample:
  "parseDateToMySQL (zoneEnv 0) (constClock 1760397282000) (Text ''1995-03-04'') = Inr ''1995-03-04 00:00:00''
   \<and> mysqlText (Some (constClock 1760397282000 0)) = Inr ''2025-10-13 23:14:42''
   \<and> \<not> saneYear (getFullYear (zoneEnv 0) (constClock 1760397282000 0)) 1995"
  by code_simp

text \<open>
  C1, amended: on the display path a date that \<^verbatim>\<open>parseDate\<close> returns has its local calendar
  year within 2000 and the current year plus 2, for every input, host and clock reading, so
  that a string whose parses all fall outside the range gives the unknown result. The
  storage path has no year bound: a string that the native parser accepts after cleanup is
  stored as the date it denotes.
\<close>

theorem C1_display_year_bound:
  "(parseDate e now ts = Some d \<longrightarrow> saneYear (getFullYear e now) (getFullYear e d))
   \<and> (w \<noteq> [] \<longrightarrow> dateParse e (cleanStorage w) = Some t
        \<longrightarrow> parseDateToMySQL e clk (Text w) = mysqlText (Some t))"
proof (intro conjI impI)
  assume "parseDate e now ts = Some d"
  then have "accepted e (getFullYear e now) (Some d)"
    unfolding parseDate_def
    by (auto split: option.splits if_splits dest: parseCleaned_accepted)
  then show "saneYear (getFullYear e now) (getFullYear e d)"
    by (simp add: accepted_def)
next
  assume "w \<noteq> []" and "dateParse e (cleanStorage w) = Some t"
  then show "parseDateToMySQL e clk (Text w) = mysqlText (Some t)"
    by (rule storage_native_first)
qed

theorem C1_display_year_bound_witness:
  "parseDate (zoneEnv 0) 1760397282000 (Some ''2025-10-13'') = Some 1760313600000
   \<and> saneYear (getFullYear (zoneEnv 0) 1760397282000) (getFullYear (zoneEnv 0) 1760313600000)
   \<and> ''1995-03-04'' \<noteq> []
   \<and> dateParse (zoneEnv 0) (cleanStorage ''1995-03-04'') = Some 794275200000
   \<and> parseDateToMySQL (zoneEnv 0) (constClock 0) (Text ''1995-03-04'') = mysqlText (Some 794275200000)"
proof -
  have a: "parseDate (zoneEnv 0) 1760397282000 (Some ''2025-10-13'') = Some 1760313600000"
    by code_simp
  have b: "dateParse (zoneEnv 0) (cleanStorage ''1995-03-04'') = Some 794275200000"
    by code_simp
  show ?thesis
    using a b
      C1_display_year_bound [of "zoneEnv 0" 1760397282000 "Some ''2025-10-13''" 1760313600000
        "''1995-03-04''" 794275200000 "constClock 0"]
    by simp
qed

section \<open>The format of the stored timestamp\<close>

text \<open>
  C3 at the input \<^verbatim>\<open>+010000-01-01T00:00:00Z\<close>, a date-time in the standard format with an
  expanded year: \<^verbatim>\<open>toISOString\<close> writes the year with a sign and six digits, and the first 19
  characters of that text are not a timestamp of the form \<^verbatim>\<open>YYYY-MM-DD HH:MM:SS\<close>.
\<close>

theorem C3_expanded_year_output:
  "parseDateToMySQL (zoneEnv 0) (constClock 1760397282000) (Text ''+010000-01-01T00:00:00Z'')
     = Inr ''+010000-01-01 00:00''"
  by code_simp

section \<open>The key of the daily buckets\<close>

text \<open>
  C2 at a ticket updated at \<^verbatim>\<open>2025-10-13T23:30:00Z\<close>, on a host two hours east of UTC: the
  string carries the UTC flag and its UTC day is 13 October, the day \<^verbatim>\<open>filteredTickets\<close>
  looks for, but \<^verbatim>\<open>ticketsPerDay\<close> counts the ticket under the local day, 14 October.
\<close>

theorem C2_per_day_uses_local_key:
  "ticketsPerDay (zoneEnv 7200000) (constClock 1760397282000)
     [mkTicket None (Some ''2025-10-13T23:30:00Z'')] = [(''2025-10-14'', 1)]
   \<and> isIsoUTC (selectedRaw (mkTicket None (Some ''2025-10-13T23:30:00Z'')))
   \<and> parseDate (zoneEnv 7200000) 1760397282000 (Some ''2025-10-13T23:30:00Z'') = Some 1760398200000
   \<and> filterKey (zoneEnv 7200000) (Some ''2025-10-13T23:30:00Z'') 1760398200000 = ''2025-10-13''"
  by code_simp

section \<open>Facts about the matcher\<close>

declare ms.simps(9) [simp del]
declare cands.simps [simp del]

lemma clr_Nil [simp]: "clr [] c = c"
  by (simp add: clr_def)

lemma lastOr_simps [simp]:
  "lastOr p [] = p"
  "lastOr p (x # t) = lastOr (Some x) t"
  by (simp_all add: lastOr_def)

lemma ms_rep_chr:
  "ms (Rep mn mx g (Chr P)) (p, s, c) =
     map (\<lambda>k. (lastOr p (take k s), drop k s, c)) (cands mn mx g (length (takeWhile P s)))"
proof (induction s arbitrary: p mn mx)
  case Nil
  show ?case
    by (simp add: ms.simps(9) [of mn mx g "Chr P"] cands.simps [of mn mx g 0] Let_def)
next
  case (Cons x t)
  show ?case
  proof (cases "P x")
    case False
    then show ?thesis
      by (simp add: ms.simps(9) [of mn mx g "Chr P"] cands.simps [of mn mx g 0] Let_def)
  next
    case True
    then show ?thesis
      by (simp add: ms.simps(9) [of mn mx g "Chr P"] cands.simps [of mn mx g "Suc n" for n] Let_def Cons.IH
          comp_def)
  qed
qed

lemma upt_from_0: "[0..<Suc n] = 0 # map Suc [0..<n]"
  by (simp add: upt_conv_Cons map_Suc_upt del: upt_Suc)

lemma cands_closed:
  "(case mx of None \<Rightarrow> True | Some m \<Rightarrow> mn \<le> m) \<Longrightarrow>
   cands mn mx g n =
     (let l = [mn..<Suc (case mx of None \<Rightarrow> n | Some m \<Rightarrow> min n m)] in if g then rev l else l)"
proof (induction n arbitrary: mn mx)
  case 0
  then show ?case
    by (subst cands.simps) (cases mx; auto simp: Let_def)
next
  case (Suc n)
  show ?case
  proof (cases "mx = Some 0")
    case True
    with Suc.prems show ?thesis
      by (subst cands.simps) (simp add: Let_def)
  next
    case False
    have pre: "case map_option (\<lambda>m. m - 1) mx of None \<Rightarrow> True | Some m \<Rightarrow> mn - 1 \<le> m"
      using Suc.prems by (cases mx) auto
    define h' where "h' = (case map_option (\<lambda>m. m - 1) mx of None \<Rightarrow> n | Some m \<Rightarrow> min n m)"
    define h where "h = (case mx of None \<Rightarrow> Suc n | Some m \<Rightarrow> min (Suc n) m)"
    have hi: "Suc h' = h"
      using False unfolding h'_def h_def by (cases mx) auto
    have "cands (mn - 1) (map_option (\<lambda>m. m - 1) mx) g n
        = (if g then rev [mn - 1..<Suc h'] else [mn - 1..<Suc h'])"
      using Suc.IH [OF pre] unfolding h'_def Let_def by simp
    then have more: "map Suc (cands (mn - 1) (map_option (\<lambda>m. m - 1) mx) g n)
        = (if g then rev [Suc (mn - 1)..<Suc h] else [Suc (mn - 1)..<Suc h])"
      unfolding hi [symmetric]
      by (simp add: map_Suc_upt rev_map [symmetric] del: upt_Suc)
    have goal: "cands mn mx g (Suc n) = (if g then rev [mn..<Suc h] else [mn..<Suc h])"
    proof (cases "mn = 0")
      case True
      then show ?thesis
        using False more
        by (subst cands.simps) (simp add: Let_def upt_conv_Cons del: upt_Suc)
    next
      case f: False
      then show ?thesis
        using False more
        by (subst cands.simps) (simp add: Let_def del: upt_Suc)
    qed
    then show ?thesis
      unfolding h_def Let_def by simp
  qed
qed


subsection \<open>Searching\<close>

lemma search_found_iff:
  assumes "\<And>p c s. (ms r (p, s, c) \<noteq> []) = Q s"
  shows "(search r acc p s \<noteq> None) = (\<exists>pre b. s = pre @ b \<and> Q b)"
proof (induction s arbitrary: acc p)
  case Nil
  have "(ms r (p, [], Map.empty) \<noteq> []) = Q []"
    by (rule assms)
  then show ?case
    by (auto split: list.splits)
next
  case (Cons x t)
  have h: "(ms r (p, x # t, Map.empty) \<noteq> []) = Q (x # t)"
    by (rule assms)
  have ih: "(search r (x # acc) (Some x) t \<noteq> None) = (\<exists>pre b. t = pre @ b \<and> Q b)"
    by (rule Cons.IH)
  have split: "(\<exists>pre b. x # t = pre @ b \<and> Q b) = (Q (x # t) \<or> (\<exists>pre b. t = pre @ b \<and> Q b))"
    by (auto simp: Cons_eq_append_conv)
  show ?case
  proof (cases "ms r (p, x # t, Map.empty)")
    case Nil
    then show ?thesis
      using h ih split by (simp del: search.simps add: search.simps [of r acc p "x # t"])
  next
    case (Cons st sts)
    then show ?thesis
      using h split by (auto simp del: search.simps simp add: search.simps [of r acc p "x # t"] split: prod.splits)
  qed
qed

section \<open>The UTC flag, characterised\<close>

lemma ms_exact:
  "ms (Rep k (Some k) True (Chr P)) (p, s, c) =
     (if k \<le> length (takeWhile P s) then [(lastOr p (take k s), drop k s, c)] else [])"
  by (auto simp: ms_rep_chr cands_closed Let_def min_def)

lemma ne_seq_exact:
  assumes "\<And>p c s. (ms r (p, s, c) \<noteq> []) = Q s"
  shows "(ms (Seq (Rep k (Some k) True (Chr P)) r) (p, s, c) \<noteq> [])
           = (k \<le> length (takeWhile P s) \<and> Q (drop k s))"
  by (simp add: ms_exact assms)

lemma ne_seq_chr:
  assumes "\<And>p c s. (ms r (p, s, c) \<noteq> []) = Q s"
  shows "(ms (Seq (Chr P) r) (p, s, c) \<noteq> []) = (case s of [] \<Rightarrow> False | x # t \<Rightarrow> P x \<and> Q t)"
  by (cases s) (simp_all add: assms)

lemma shapeZ_Nil: "shapeZ [] s = fractionZ s"
  by (simp add: shapeZ_def)

lemma shapeZ_lit:
  "q \<noteq> CHR ''d'' \<Longrightarrow> shapeZ (q # pat) s = (case s of [] \<Rightarrow> False | x # t \<Rightarrow> x = q \<and> shapeZ pat t)"
  by (cases s) (simp_all add: shapeZ_def)

lemma shapeZ_digits:
  "shapeZ (replicate k CHR ''d'' @ pat) s = (k \<le> length (takeWhile isDigit s) \<and> shapeZ pat (drop k s))"
proof (induction k arbitrary: s)
  case 0
  then show ?case by simp
next
  case (Suc k)
  show ?case
  proof (cases s)
    case Nil
    then show ?thesis by (simp add: shapeZ_def)
  next
    case (Cons x t)
    have "shapeZ (CHR ''d'' # replicate k CHR ''d'' @ pat) (x # t)
            = (isDigit x \<and> shapeZ (replicate k CHR ''d'' @ pat) t)"
      by (simp add: shapeZ_def)
    then show ?thesis
      using Cons Suc.IH [of t] by simp
  qed
qed

lemma shapeZ_2: "shapeZ (CHR ''d'' # CHR ''d'' # pat) s = (2 \<le> length (takeWhile isDigit s) \<and> shapeZ pat (drop 2 s))"
  using shapeZ_digits [of 2 pat s] by (simp add: eval_nat_numeral)

lemma shapeZ_4: "shapeZ (CHR ''d'' # CHR ''d'' # CHR ''d'' # CHR ''d'' # pat) s = (4 \<le> length (takeWhile isDigit s) \<and> shapeZ pat (drop 4 s))"
  using shapeZ_digits [of 4 pat s] by (simp add: eval_nat_numeral)

lemma ms_rep_zero: "ms (Rep mn (Some 0) g a) st = [st]"
  by (cases st) (simp add: ms.simps(9))

lemma ms_opt:
  "ms (Rep 0 (Some (Suc 0)) True a) (p, s, c) =
     concat (map (\<lambda>(p', s', c'). if \<not> length s' < length s then [] else [(p', s', c')])
               (ms a (p, s, clr (grps a) c))) @ [(p, s, c)]"
  by (subst ms.simps(9)) (simp add: Let_def ms_rep_zero cong: if_cong)

lemma concat_map_ne: "(concat (map f xs) \<noteq> []) = (\<exists>x \<in> set xs. f x \<noteq> [])"
  by (induction xs) auto

lemma drop_to_single:
  assumes "\<not> P z"
  shows "(\<exists>k. 1 \<le> k \<and> k \<le> length (takeWhile P t) \<and> drop k t = [z])
           = (takeWhile P t \<noteq> [] \<and> dropWhile P t = [z])"
proof
  assume "\<exists>k. 1 \<le> k \<and> k \<le> length (takeWhile P t) \<and> drop k t = [z]"
  then obtain k where k: "1 \<le> k" "k \<le> length (takeWhile P t)" "drop k t = [z]"
    by blast
  have t: "t = take k t @ [z]"
    using k(3) by (metis append_take_drop_id)
  have "take k t = take k (takeWhile P t)"
    using k(2) by (metis append_eq_conv_conj append_take_drop_id takeWhile_dropWhile_id take_all take_append
        diff_is_0_eq take_0 append_Nil2)
  then have allP: "\<forall>x \<in> set (take k t). P x"
    by (metis in_set_takeD set_takeWhileD)
  have "takeWhile P t = take k t"
    using t allP assms by (metis takeWhile_append2 takeWhile.simps append_Nil2)
  moreover have "take k t \<noteq> []"
    using k(1) t k(3) by (metis One_nat_def append_Nil le_zero_eq length_Cons list.size(3) not_less_eq_eq
        take_eq_Nil length_drop diff_is_0_eq' drop_all list.discI nat_le_linear)
  moreover have "dropWhile P t = [z]"
    using t allP assms by (metis dropWhile_append2 dropWhile.simps)
  ultimately show "takeWhile P t \<noteq> [] \<and> dropWhile P t = [z]"
    by simp
next
  assume a: "takeWhile P t \<noteq> [] \<and> dropWhile P t = [z]"
  then have "1 \<le> length (takeWhile P t)"
    by (cases "takeWhile P t") auto
  moreover have "drop (length (takeWhile P t)) t = [z]"
    using a by (simp add: dropWhile_eq_drop [symmetric])
  ultimately show "\<exists>k. 1 \<le> k \<and> k \<le> length (takeWhile P t) \<and> drop k t = [z]"
    by blast
qed

lemma ms_Z_Eol: "(ms (Seq (lit CHR ''Z'') Eol) (p, s, c) \<noteq> []) = (s = ''Z'')"
  by (cases s) (auto simp: lit_def)

lemma ms_dot_digits:
  "ms (Seq (lit CHR ''.'') (Rep (Suc 0) None True (Chr isDigit))) (p, s, c) =
     (case s of
        [] \<Rightarrow> []
      | x # t \<Rightarrow>
          if x = CHR ''.''
          then map (\<lambda>k. (lastOr (Some x) (take k t), drop k t, c)) (rev [Suc 0..<Suc (length (takeWhile isDigit t))])
          else [])"
  by (cases s) (simp_all add: lit_def ms_rep_chr cands_closed Let_def del: upt_Suc)

lemma tail_fractionZ:
  "(ms (Seq (Rep 0 (Some 1) True (Seq (lit CHR ''.'') (Rep 1 None True (Chr isDigit))))
            (Seq (lit CHR ''Z'') Eol)) (p, s, c) \<noteq> []) = fractionZ s"
proof -
  let ?ZE = "Seq (lit CHR ''Z'') Eol"
  let ?X = "Seq (lit CHR ''.'') (Rep (Suc 0) None True (Chr isDigit))"
  have seq: "(ms (Seq (Rep 0 (Some (Suc 0)) True ?X) ?ZE) (p, s, c) \<noteq> [])
      = (\<exists>st \<in> set (ms (Rep 0 (Some (Suc 0)) True ?X) (p, s, c)). ms ?ZE st \<noteq> [])"
    by (simp only: ms.simps(3) concat_map_ne)
  have grpsX: "grps ?X = []"
    by (simp add: lit_def)
  have opt: "set (ms (Rep 0 (Some (Suc 0)) True ?X) (p, s, c))
      = insert (p, s, c) {st \<in> set (ms ?X (p, s, c)). length (fst (snd st)) < length s}"
    by (auto simp only: ms_opt grpsX clr_Nil set_append set_concat set_map split: if_splits prod.splits)
       auto
  show ?thesis
  proof (cases s)
    case Nil
    then show ?thesis
      using seq opt ms_Z_Eol [of p s c]
      by (simp add: ms_dot_digits fractionZ_def del: ms.simps)
  next
    case (Cons x t)
    show ?thesis
    proof (cases "x = CHR ''.''")
      case False
      then show ?thesis
        using Cons seq opt ms_Z_Eol [of p s c]
        by (simp add: ms_dot_digits fractionZ_def del: ms.simps)
    next
      case True
      have nd: "\<not> isDigit CHR ''Z''"
        by (simp add: isDigit_def)
      have "(ms (Seq (Rep 0 (Some (Suc 0)) True ?X) ?ZE) (p, s, c) \<noteq> [])
          = (\<exists>k. 1 \<le> k \<and> k \<le> length (takeWhile isDigit t) \<and> drop k t = ''Z'')"
        using Cons True ms_Z_Eol [of p s c]
        unfolding seq opt
        by (auto simp add: ms_dot_digits ms_Z_Eol simp del: ms.simps upt_Suc)
      also have "\<dots> = (takeWhile isDigit t \<noteq> [] \<and> dropWhile isDigit t = ''Z'')"
        using nd by (rule drop_to_single [of isDigit "CHR ''Z''" t])
      finally show ?thesis
        using Cons True by (simp add: fractionZ_def)
    qed
  qed
qed

lemma step_lit:
  assumes "\<And>p c s. (ms r (p, s, c) \<noteq> []) = shapeZ pat s" and "a \<noteq> CHR ''d''"
  shows "(ms (Seq (lit a) r) (p, s, c) \<noteq> []) = shapeZ (a # pat) s"
  unfolding lit_def ne_seq_chr [of r "shapeZ pat", OF assms(1)] shapeZ_lit [OF assms(2)]
  by (auto split: list.splits)

lemma step_2:
  assumes "\<And>p c s. (ms r (p, s, c) \<noteq> []) = shapeZ pat s"
  shows "(ms (Seq (Rep 2 (Some 2) True (Chr isDigit)) r) (p, s, c) \<noteq> []) = shapeZ (CHR ''d'' # CHR ''d'' # pat) s"
  unfolding ne_seq_exact [of r "shapeZ pat", OF assms] shapeZ_2 ..

lemma step_4:
  assumes "\<And>p c s. (ms r (p, s, c) \<noteq> []) = shapeZ pat s"
  shows "(ms (Seq (Rep 4 (Some 4) True (Chr isDigit)) r) (p, s, c) \<noteq> [])
           = shapeZ (CHR ''d'' # CHR ''d'' # CHR ''d'' # CHR ''d'' # pat) s"
  unfolding ne_seq_exact [of r "shapeZ pat", OF assms] shapeZ_4 ..

lemma reIsoUTC_strict: "(ms reIsoUTC (p, s, c) \<noteq> []) = strictIsoZ s"
proof -
  let ?t = "Seq (Rep 0 (Some 1) True (Seq (lit CHR ''.'') (Rep 1 None True (Chr isDigit))))
                (Seq (lit CHR ''Z'') Eol)"
  have a0: "\<And>p c s. (ms ?t (p, s, c) \<noteq> []) = shapeZ [] s"
    unfolding shapeZ_Nil by (rule tail_fractionZ)
  note a1 = step_2 [of _ "[]", OF a0]
  have a2: "\<And>p c s. (ms (Seq (lit CHR '':'') (Seq (Rep 2 (Some 2) True (Chr isDigit)) ?t)) (p, s, c) \<noteq> []) = shapeZ '':dd'' s"
    by (rule step_lit [OF a1]) simp
  note a3 = step_2 [of _ "'':dd''", OF a2]
  have a4: "\<And>p c s. (ms (Seq (lit CHR '':'') (Seq (Rep 2 (Some 2) True (Chr isDigit))
              (Seq (lit CHR '':'') (Seq (Rep 2 (Some 2) True (Chr isDigit)) ?t)))) (p, s, c) \<noteq> []) = shapeZ '':dd:dd'' s"
    by (rule step_lit [OF a3]) simp
  note a5 = step_2 [of _ "'':dd:dd''", OF a4]
  note a6 = step_lit [of _ "''dd:dd:dd''" "CHR ''T''", OF a5]
  have a6': "\<And>p c s. (ms (Seq (lit CHR ''T'') (Seq (Rep 2 (Some 2) True (Chr isDigit)) (Seq (lit CHR '':'') (Seq (Rep 2 (Some 2) True (Chr isDigit))
              (Seq (lit CHR '':'') (Seq (Rep 2 (Some 2) True (Chr isDigit)) ?t)))))) (p, s, c) \<noteq> []) = shapeZ ''Tdd:dd:dd'' s"
    by (rule a6) simp
  note a7 = step_2 [of _ "''Tdd:dd:dd''", OF a6']
  have a8: "\<And>p c s. (ms (Seq (lit CHR ''-'') (Seq (Rep 2 (Some 2) True (Chr isDigit)) (Seq (lit CHR ''T'') (Seq (Rep 2 (Some 2) True (Chr isDigit)) (Seq (lit CHR '':'') (Seq (Rep 2 (Some 2) True (Chr isDigit))
              (Seq (lit CHR '':'') (Seq (Rep 2 (Some 2) True (Chr isDigit)) ?t)))))))) (p, s, c) \<noteq> []) = shapeZ ''-ddTdd:dd:dd'' s"
    by (rule step_lit [OF a7]) simp
  note a9 = step_2 [of _ "''-ddTdd:dd:dd''", OF a8]
  have a10: "\<And>p c s. (ms (Seq (lit CHR ''-'') (Seq (Rep 2 (Some 2) True (Chr isDigit)) (Seq (lit CHR ''-'') (Seq (Rep 2 (Some 2) True (Chr isDigit)) (Seq (lit CHR ''T'') (Seq (Rep 2 (Some 2) True (Chr isDigit)) (Seq (lit CHR '':'') (Seq (Rep 2 (Some 2) True (Chr isDigit))
              (Seq (lit CHR '':'') (Seq (Rep 2 (Some 2) True (Chr isDigit)) ?t)))))))))) (p, s, c) \<noteq> []) = shapeZ ''-dd-ddTdd:dd:dd'' s"
    by (rule step_lit [OF a9]) simp
  note a11 = step_4 [of _ "''-dd-ddTdd:dd:dd''", OF a10]
  show ?thesis
    unfolding strictIsoZ_def reIsoUTC_def seqs.simps
    by (rule a11)
qed

lemma isIsoUTC_iff: "isIsoUTC (Some w) = (\<exists>pre b. trim w = pre @ b \<and> strictIsoZ b)"
  unfolding isIsoUTC_def test_def exec_def option.case
  by (rule search_found_iff) (rule reIsoUTC_strict)

text \<open>
  C5, as stated, fails: the expression is anchored at the end of the string only, so a string
  with any text before a UTC date-time is recognized although it is not of the strict
  pattern; and the fields are digits without range check, so a string that is no valid
  instant is recognized too.
\<close>

theorem C5_isIsoUTC_counterexample:
  "isIsoUTC (Some ''x2025-10-13T10:00:00Z'') \<and> \<not> strictIsoZ ''x2025-10-13T10:00:00Z''
   \<and> isIsoUTC (Some ''2025-99-99T99:99:99Z'') \<and> isoParse (zoneEnv 0) ''2025-99-99T99:99:99Z'' = None"
  by code_simp

text \<open>
  C5, amended: \<^verbatim>\<open>isIsoUTC\<close> is false on an absent value, and true on a string exactly when the
  string, trimmed of surrounding whitespace, ends with a text of the strict pattern
  \<^verbatim>\<open>dddd-dd-ddTdd:dd:dd\<close>, an optional fraction \<^verbatim>\<open>.d+\<close> and \<^verbatim>\<open>Z\<close>, where \<^verbatim>\<open>d\<close> is any digit. So
  it is true on every string of the strict pattern, with no check of the ranges of the
  fields, and on such a string after any prefix, and false on every other string.
\<close>

theorem C5_isIsoUTC_suffix:
  "isIsoUTC None = False
   \<and> isIsoUTC (Some w) = (\<exists>pre b. trim w = pre @ b \<and> strictIsoZ b)"
  by (simp add: isIsoUTC_iff) (simp add: isIsoUTC_def)

theorem C5_isIsoUTC_suffix_witness:
  "isIsoUTC (Some '' 2025-10-13T10:00:00.25Z '')
   \<and> trim '' 2025-10-13T10:00:00.25Z '' = [] @ ''2025-10-13T10:00:00.25Z''
   \<and> strictIsoZ ''2025-10-13T10:00:00.25Z''"
proof -
  have a: "trim '' 2025-10-13T10:00:00.25Z '' = [] @ ''2025-10-13T10:00:00.25Z''"
    by code_simp
  have b: "strictIsoZ ''2025-10-13T10:00:00.25Z''"
    by code_simp
  have "isIsoUTC (Some '' 2025-10-13T10:00:00.25Z '')"
    using C5_isIsoUTC_suffix [of "'' 2025-10-13T10:00:00.25Z ''"] a b by blast
  then show ?thesis
    using a b by blast
qed

section \<open>Brand groups\<close>

lemma set_insertBy: "set (insertBy le x xs) = insert x (set xs)"
  by (induction xs) auto

lemma set_sortBy: "set (sortBy le xs) = set xs"
  unfolding sortBy_def by (induction xs) (auto simp: set_insertBy)

lemma sorted_insertBy:
  assumes tr: "\<And>a b c. le a b \<Longrightarrow> le b c \<Longrightarrow> le a c" and tot: "\<And>a b. le a b \<or> le b a"
  shows "sorted_wrt le xs \<Longrightarrow> sorted_wrt le (insertBy le x xs)"
proof (induction xs)
  case Nil
  then show ?case by simp
next
  case (Cons y ys)
  show ?case
  proof (cases "le x y")
    case True
    have "\<forall>z \<in> set ys. le x z"
      using True Cons.prems tr by auto
    then show ?thesis
      using True Cons.prems by simp
  next
    case False
    then have "le y x"
      using tot by blast
    then show ?thesis
      using False Cons by (auto simp: set_insertBy)
  qed
qed

lemma sorted_sortBy:
  assumes tr: "\<And>a b c. le a b \<Longrightarrow> le b c \<Longrightarrow> le a c" and tot: "\<And>a b. le a b \<or> le b a"
  shows "sorted_wrt le (sortBy le xs)"
  unfolding sortBy_def
  by (induction xs) (simp_all add: sorted_insertBy [of le, OF tr tot])

lemma distinct_insertBy:
  "distinct (map fst (insertBy le x xs)) = (fst x \<notin> fst ` set xs \<and> distinct (map fst xs))"
  by (induction xs) (auto simp: set_insertBy)

lemma distinct_sortBy: "distinct (map fst (sortBy le xs)) = distinct (map fst xs)"
proof (induction xs)
  case Nil
  then show ?case by (simp add: sortBy_def)
next
  case (Cons x xs)
  have "sortBy le (x # xs) = insertBy le x (sortBy le xs)"
    by (simp add: sortBy_def)
  then show ?case
    using Cons by (simp add: distinct_insertBy set_sortBy)
qed

lemma sum_insertBy:
  "sum_list (map snd (insertBy le x (xs :: ('a \<times> nat) list))) = snd x + sum_list (map snd xs)"
  by (induction xs) auto

lemma sum_sortBy: "sum_list (map snd (sortBy le (xs :: ('a \<times> nat) list))) = sum_list (map snd xs)"
  unfolding sortBy_def by (induction xs) (auto simp: sum_insertBy)

lemma set_entries: "set (entries counts) = set counts"
  unfolding entries_def by (auto simp: set_sortBy)

lemma distinct_entries: "distinct (map fst counts) \<Longrightarrow> distinct (map fst (entries counts))"
  unfolding entries_def
  by (auto simp: distinct_sortBy set_sortBy distinct_map_filter)

lemma sum_filter_split:
  "sum_list (map snd (filter P (xs :: ('a \<times> nat) list))) + sum_list (map snd (filter (\<lambda>x. \<not> P x) xs))
     = sum_list (map snd xs)"
  by (induction xs) auto

lemma sum_entries: "sum_list (map snd (entries counts)) = sum_list (map snd counts)"
  unfolding entries_def by (simp add: sum_sortBy sum_filter_split)

lemma map_of_bump_map:
  "map_of (map (\<lambda>(k', v'). if k' = k then (k', v' + 1) else (k', v')) cs) k'' =
     (if k'' = k then map_option (\<lambda>v. v + 1) (map_of cs k) else map_of cs k'')"
  by (induction cs) auto

lemma map_of_bump:
  "map_of (bump cs k) k' =
     (if k' = k then Some (case map_of cs k of None \<Rightarrow> 1 | Some v \<Rightarrow> v + 1) else map_of cs k')"
  unfolding bump_def
  by (auto simp: map_of_bump_map map_add_def split: option.splits)

lemma keys_bump_map:
  "map (fst \<circ> (\<lambda>(k', v'). if k' = k then (k', v' + 1) else (k', v'))) cs = map fst cs"
  by (induction cs) auto

lemma distinct_bump: "distinct (map fst cs) \<Longrightarrow> distinct (map fst (bump cs k))"
  unfolding bump_def
  by (auto simp: keys_bump_map map_of_eq_None_iff split: option.splits)

lemma sum_bump_other:
  "k \<notin> fst ` set cs \<Longrightarrow>
   map (snd \<circ> (\<lambda>(k', v'). if k' = k then (k', v' + 1) else (k', v'))) cs = map snd cs"
  by (induction cs) auto

lemma sum_bump_map:
  "(k, v) \<in> set cs \<Longrightarrow> distinct (map fst cs) \<Longrightarrow>
   sum_list (map (snd \<circ> (\<lambda>(k', v'). if k' = k then (k', v' + 1) else (k', v'))) cs)
     = Suc (sum_list (map snd cs))"
proof (induction cs)
  case Nil
  then show ?case by simp
next
  case (Cons a cs)
  obtain k0 v0 where a: "a = (k0, v0)"
    by (cases a)
  show ?case
  proof (cases "k0 = k")
    case True
    then have "k \<notin> fst ` set cs"
      using Cons.prems(2) a by simp
    then have "map (snd \<circ> (\<lambda>(k', v'). if k' = k then (k', v' + 1) else (k', v'))) cs = map snd cs"
      by (rule sum_bump_other)
    then have "map (snd \<circ> (\<lambda>(k', v'). if k' = k then (k', v' + 1) else (k', v'))) (a # cs)
        = Suc v0 # map snd cs"
      using True a by simp
    then show ?thesis
      unfolding \<open>map (snd \<circ> (\<lambda>(k', v'). if k' = k then (k', v' + 1) else (k', v'))) (a # cs)
        = Suc v0 # map snd cs\<close>
      using a by simp
  next
    case False
    then show ?thesis
      using Cons a by auto
  qed
qed

lemma sum_bump: "distinct (map fst cs) \<Longrightarrow> sum_list (map snd (bump cs k)) = Suc (sum_list (map snd cs))"
  unfolding bump_def
  by (auto simp: sum_bump_map split: option.splits)

lemma foldl_bump:
  "distinct (map fst cs) \<Longrightarrow>
   distinct (map fst (foldl (\<lambda>c t. bump c (f t)) cs ts))
   \<and> sum_list (map snd (foldl (\<lambda>c t. bump c (f t)) cs ts)) = sum_list (map snd cs) + length ts
   \<and> map_of (foldl (\<lambda>c t. bump c (f t)) cs ts) k =
       (if length (filter (\<lambda>t. f t = k) ts) = 0 then map_of cs k
        else Some (length (filter (\<lambda>t. f t = k) ts) + (case map_of cs k of None \<Rightarrow> 0 | Some v \<Rightarrow> v)))"
proof (induction ts arbitrary: cs)
  case Nil
  then show ?case by simp
next
  case (Cons t ts)
  have d: "distinct (map fst (bump cs (f t)))"
    using Cons.prems by (rule distinct_bump)
  show ?case
    using Cons.IH [OF d] Cons.prems
    by (auto simp: map_of_bump sum_bump split: option.splits)
qed

lemma brandCounts_entry:
  assumes "t \<in> set tickets" and "normalizeBrand e (brand t) = b"
  shows "(b, length (filter (\<lambda>u. normalizeBrand e (brand u) = b) tickets)) \<in> set (ticketsByBrand e tickets)"
proof -
  let ?f = "\<lambda>u. normalizeBrand e (brand u)"
  have ne: "length (filter (\<lambda>u. ?f u = b) tickets) \<noteq> 0"
    using assms by (auto simp: filter_empty_conv)
  have "map_of (brandCounts e tickets) b = Some (length (filter (\<lambda>u. ?f u = b) tickets))"
    using foldl_bump [of "[]" ?f tickets b] ne
    unfolding brandCounts_def by simp
  then have "(b, length (filter (\<lambda>u. ?f u = b) tickets)) \<in> set (brandCounts e tickets)"
    by (rule map_of_SomeD)
  then show ?thesis
    by (simp add: ticketsByBrand_def set_sortBy set_entries)
qed

lemma ticketsByBrand_ranked: "sorted_wrt (\<lambda>a b. snd b \<le> snd a) (ticketsByBrand e tickets)"
  unfolding ticketsByBrand_def
  by (rule sorted_sortBy) auto

lemma ticketsByBrand_distinct: "distinct (map fst (ticketsByBrand e tickets))"
  unfolding ticketsByBrand_def distinct_sortBy
  using foldl_bump [of "[]" "\<lambda>u. normalizeBrand e (brand u)" tickets]
  by (simp add: distinct_entries brandCounts_def)

lemma ticketsByBrand_total: "sum_list (map snd (ticketsByBrand e tickets)) = length tickets"
  unfolding ticketsByBrand_def sum_sortBy sum_entries
  using foldl_bump [of "[]" "\<lambda>u. normalizeBrand e (brand u)" tickets]
  by (simp add: brandCounts_def)

lemma filter_length_mono:
  "(\<And>u. P u \<Longrightarrow> Q u) \<Longrightarrow> length (filter P xs) \<le> length (filter Q xs)"
  by (induction xs) auto

lemma normalizeBrand_absent:
  "normalizeBrand e None = ''Unknown''" "normalizeBrand e (Some []) = ''Unknown''"
  by (simp_all add: normalizeBrand_def)

text \<open>
  C10: \<^verbatim>\<open>normalizeBrand\<close> gives the label \<^verbatim>\<open>Unknown\<close> to an absent and to an empty brand. In
  the result of \<^verbatim>\<open>ticketsByBrand\<close> the entries are in descending order of their counts, no
  label has two entries, the counts add up to the number of tickets, and each ticket's label
  has an entry whose count is the number of tickets with that label. So the tickets without a
  brand are not dropped: they are counted in the one entry \<^verbatim>\<open>Unknown\<close>, which is ranked by its
  count among the entries of the other labels.
\<close>

theorem C10_unknown_brand_group:
  "normalizeBrand e None = ''Unknown'' \<and> normalizeBrand e (Some []) = ''Unknown''
   \<and> sorted_wrt (\<lambda>a b. snd b \<le> snd a) (ticketsByBrand e tickets)
   \<and> distinct (map fst (ticketsByBrand e tickets))
   \<and> sum_list (map snd (ticketsByBrand e tickets)) = length tickets
   \<and> (t \<in> set tickets \<longrightarrow>
        (normalizeBrand e (brand t),
         length (filter (\<lambda>u. normalizeBrand e (brand u) = normalizeBrand e (brand t)) tickets))
          \<in> set (ticketsByBrand e tickets))
   \<and> (t \<in> set tickets \<and> (brand t = None \<or> brand t = Some []) \<longrightarrow>
        (''Unknown'', length (filter (\<lambda>u. normalizeBrand e (brand u) = ''Unknown'') tickets))
          \<in> set (ticketsByBrand e tickets)
        \<and> length (filter (\<lambda>u. brand u = None \<or> brand u = Some []) tickets)
            \<le> length (filter (\<lambda>u. normalizeBrand e (brand u) = ''Unknown'') tickets))"
proof (intro conjI impI)
  show "sorted_wrt (\<lambda>a b. snd b \<le> snd a) (ticketsByBrand e tickets)"
    by (rule ticketsByBrand_ranked)
  show "distinct (map fst (ticketsByBrand e tickets))"
    by (rule ticketsByBrand_distinct)
  show "sum_list (map snd (ticketsByBrand e tickets)) = length tickets"
    by (rule ticketsByBrand_total)
next
  assume "t \<in> set tickets"
  then show "(normalizeBrand e (brand t),
         length (filter (\<lambda>u. normalizeBrand e (brand u) = normalizeBrand e (brand t)) tickets))
          \<in> set (ticketsByBrand e tickets)"
    by (simp add: brandCounts_entry)
next
  assume a: "t \<in> set tickets \<and> (brand t = None \<or> brand t = Some [])"
  then have "normalizeBrand e (brand t) = ''Unknown''"
    by (auto simp: normalizeBrand_absent)
  with a show "(''Unknown'', length (filter (\<lambda>u. normalizeBrand e (brand u) = ''Unknown'') tickets))
          \<in> set (ticketsByBrand e tickets)"
    using brandCounts_entry [of t tickets e "''Unknown''"] by blast
  have "\<And>u. brand u = None \<or> brand u = Some [] \<Longrightarrow> normalizeBrand e (brand u) = ''Unknown''"
    by (auto simp: normalizeBrand_absent)
  then show "length (filter (\<lambda>u. brand u = None \<or> brand u = Some []) tickets)
            \<le> length (filter (\<lambda>u. normalizeBrand e (brand u) = ''Unknown'') tickets)"
    by (rule filter_length_mono)
qed (simp_all add: normalizeBrand_absent)

text \<open>
  Three tickets, one of the brand \<^verbatim>\<open>_shopify\<close> followed by one without a brand and one with an
  empty brand: the entry \<^verbatim>\<open>Unknown\<close>, met second, has the count 2 and is ranked first.
\<close>

theorem C10_unknown_brand_group_witness:
  "mkTicket None None \<in> set [mkTicket (Some ''_shopify'') None, mkTicket None None, mkTicket (Some []) None]
   \<and> brand (mkTicket None None) = None
   \<and> ticketsByBrand (zoneEnv 0) [mkTicket (Some ''_shopify'') None, mkTicket None None, mkTicket (Some []) None]
        = [(''Unknown'', 2), (''Shopify'', 1)]
   \<and> length (filter (\<lambda>u. normalizeBrand (zoneEnv 0) (brand u) = ''Unknown'')
        [mkTicket (Some ''_shopify'') None, mkTicket None None, mkTicket (Some []) None]) = 2
   \<and> sorted_wrt (\<lambda>a b. snd b \<le> snd a) [(''Unknown'', 2 :: nat), (''Shopify'', 1)]
   \<and> (''Unknown'', 2)
        \<in> set (ticketsByBrand (zoneEnv 0)
                  [mkTicket (Some ''_shopify'') None, mkTicket None None, mkTicket (Some []) None])"
proof -
  let ?ts = "[mkTicket (Some ''_shopify'') None, mkTicket None None, mkTicket (Some []) None]"
  have a: "ticketsByBrand (zoneEnv 0) ?ts = [(''Unknown'', 2), (''Shopify'', 1)]"
    by code_simp
  have b: "brand (mkTicket None None) = None"
    by (simp add: mkTicket_def)
  have c: "length (filter (\<lambda>u. normalizeBrand (zoneEnv 0) (brand u) = ''Unknown'') ?ts) = 2"
    by code_simp
  have m: "mkTicket None None \<in> set ?ts"
    by simp
  show ?thesis
    using a b c m C10_unknown_brand_group [of "zoneEnv 0" ?ts "mkTicket None None"]
    by simp
qed

section \<open>Today and yesterday\<close>

subsection \<open>One ticket\<close>

lemma parseDate_noText: "noText ts \<Longrightarrow> parseDate e now ts = None"
  by (auto simp: noText_def parseDate_def)

lemma parseDateAt_eq:
  "parseDateAt e clk n ts = (parseDate e (clk n) ts, if noText ts then n else Suc n)"
  by (auto simp: parseDateAt_def noText_def parseDate_def split: option.splits)

lemma isToday_eq:
  "isToday e clk todayDate n t =
     (todayTest e (clk n) (clk (Suc n)) todayDate t, n + readsToday e (laterClock clk n) t)"
  by (auto simp: isToday_def todayTest_def readsToday_def laterClock_def parseDateAt_eq Let_def
      parseDate_noText split: option.splits)

lemma isYesterday_eq:
  "isYesterday e clk todayDate n t =
     (yesterdayTest e (clk n) (clk (Suc n)) todayDate t, n + readsYesterday e (laterClock clk n) t)"
  by (auto simp: isYesterday_def yesterdayTest_def readsYesterday_def laterClock_def parseDateAt_eq Let_def
      parseDate_noText split: option.splits)

subsection \<open>A pass\<close>

lemma laterClock_add: "laterClock (laterClock clk a) b = laterClock clk (a + b)"
  by (simp add: laterClock_def fun_eq_iff ac_simps)

lemma laterClock_0: "laterClock clk 0 = clk"
  by (simp add: laterClock_def fun_eq_iff)

lemma countWith_shift:
  assumes step: "\<And>clk n t. f clk n t = (g (clk n) (clk (Suc n)) t, n + r (laterClock clk n) t)"
  shows "countWith (f clk) n ts =
           (fst (countWith (f (laterClock clk n)) 0 ts), n + snd (countWith (f (laterClock clk n)) 0 ts))"
proof (induction ts arbitrary: n clk)
  case Nil
  then show ?case by simp
next
  case (Cons t ts)
  let ?m = "r (laterClock clk n) t"
  have a: "f clk n t = (g (clk n) (clk (Suc n)) t, n + ?m)"
    by (rule step)
  have b: "f (laterClock clk n) 0 t = (g (clk n) (clk (Suc n)) t, ?m)"
    by (simp add: step laterClock_def laterClock_0)
  have c: "countWith (f clk) (n + ?m) ts =
      (fst (countWith (f (laterClock clk (n + ?m))) 0 ts),
       n + ?m + snd (countWith (f (laterClock clk (n + ?m))) 0 ts))"
    by (rule Cons.IH)
  have d: "countWith (f (laterClock clk n)) ?m ts =
      (fst (countWith (f (laterClock clk (n + ?m))) 0 ts),
       ?m + snd (countWith (f (laterClock clk (n + ?m))) 0 ts))"
    using Cons.IH [of "laterClock clk n" ?m] by (simp add: laterClock_add)
  show ?case
    by (simp add: a b c d)
qed

lemma pass_Cons:
  assumes step: "\<And>clk n t. f clk n t = (g (clk n) (clk (Suc n)) t, n + r (laterClock clk n) t)"
  shows "countWith (f clk) 0 (t # ts) =
           ((if g (clk 0) (clk (Suc 0)) t then 1 else 0) + fst (countWith (f (laterClock clk (r clk t))) 0 ts),
            r clk t + snd (countWith (f (laterClock clk (r clk t))) 0 ts))"
proof -
  have a: "f clk 0 t = (g (clk 0) (clk (Suc 0)) t, r clk t)"
    by (simp add: step laterClock_0)
  have b: "countWith (f clk) (r clk t) ts =
      (fst (countWith (f (laterClock clk (r clk t))) 0 ts),
       r clk t + snd (countWith (f (laterClock clk (r clk t))) 0 ts))"
    by (rule countWith_shift [of f g r, OF step])
  show ?thesis
    by (simp add: a b)
qed

lemma pass_agree:
  assumes step: "\<And>clk n t. f clk n t = (g (clk n) (clk (Suc n)) t, n + r (laterClock clk n) t)"
    and loc: "\<And>clk clk' t. \<forall>k < r clk t. clk k = clk' k \<Longrightarrow>
                r clk' t = r clk t \<and> g (clk' 0) (clk' (Suc 0)) t = g (clk 0) (clk (Suc 0)) t"
  shows "\<forall>k < snd (countWith (f clk) 0 ts). clk k = clk' k \<Longrightarrow>
         countWith (f clk') 0 ts = countWith (f clk) 0 ts"
proof (induction ts arbitrary: clk clk')
  case Nil
  then show ?case by simp
next
  case (Cons t ts)
  let ?m = "r clk t"
  let ?rest = "snd (countWith (f (laterClock clk ?m)) 0 ts)"
  note pc = pass_Cons [of f g r, OF step]
  have total: "snd (countWith (f clk) 0 (t # ts)) = ?m + ?rest"
    unfolding pc by simp
  have first: "\<forall>k < ?m. clk k = clk' k"
    using Cons.prems total by simp
  have same: "r clk' t = ?m" "g (clk' 0) (clk' (Suc 0)) t = g (clk 0) (clk (Suc 0)) t"
    using loc [OF first] by simp_all
  have later: "\<forall>k < ?rest. laterClock clk ?m k = laterClock clk' ?m k"
    using Cons.prems total by (simp add: laterClock_def)
  have ih: "countWith (f (laterClock clk' ?m)) 0 ts = countWith (f (laterClock clk ?m)) 0 ts"
    using Cons.IH [OF later] .
  show ?case
    unfolding pc same ih by simp
qed

lemma readsToday_local:
  assumes "\<forall>k < readsToday e clk t. clk k = clk' k"
  shows "readsToday e clk' t = readsToday e clk t
         \<and> todayTest e (clk' 0) (clk' (Suc 0)) todayDate t = todayTest e (clk 0) (clk (Suc 0)) todayDate t"
proof (cases "noText (selectedRaw t)")
  case True
  then show ?thesis
    by (simp add: readsToday_def todayTest_def parseDate_noText)
next
  case False
  then have 0: "clk 0 = clk' 0"
    using assms by (simp add: readsToday_def split: if_splits)
  show ?thesis
  proof (cases "parseDate e (clk 0) (selectedRaw t) \<noteq> None \<and> isIsoUTC (selectedRaw t)")
    case True
    then have "clk (Suc 0) = clk' (Suc 0)"
      using assms False by (simp add: readsToday_def)
    then show ?thesis
      using 0 by (simp add: readsToday_def todayTest_def)
  next
    case f: False
    then show ?thesis
      using 0 False by (auto simp: readsToday_def todayTest_def split: option.splits)
  qed
qed

lemma readsYesterday_local:
  assumes "\<forall>k < readsYesterday e clk t. clk k = clk' k"
  shows "readsYesterday e clk' t = readsYesterday e clk t
         \<and> yesterdayTest e (clk' 0) (clk' (Suc 0)) todayDate t
             = yesterdayTest e (clk 0) (clk (Suc 0)) todayDate t"
proof (cases "noText (selectedRaw t)")
  case True
  then show ?thesis
    by (simp add: readsYesterday_def yesterdayTest_def parseDate_noText)
next
  case False
  then have 0: "clk 0 = clk' 0"
    using assms by (simp add: readsYesterday_def split: if_splits)
  show ?thesis
  proof (cases "parseDate e (clk 0) (selectedRaw t) \<noteq> None")
    case True
    then have "clk (Suc 0) = clk' (Suc 0)"
      using assms False by (simp add: readsYesterday_def)
    then show ?thesis
      using 0 by (simp add: readsYesterday_def yesterdayTest_def)
  next
    case f: False
    then show ?thesis
      using 0 False by (auto simp: readsYesterday_def yesterdayTest_def split: option.splits)
  qed
qed

lemma today_Cons:
  "countWith (isToday e clk todayDate) 0 (t # ts) =
     ((if todayTest e (clk 0) (clk (Suc 0)) todayDate t then 1 else 0)
        + ticketsToday e (laterClock clk (readsToday e clk t)) todayDate ts,
      readsToday e clk t + todayReadings e (laterClock clk (readsToday e clk t)) todayDate ts)"
  unfolding ticketsToday_def todayReadings_def
  by (rule pass_Cons [of "\<lambda>clk. isToday e clk todayDate" "\<lambda>a b. todayTest e a b todayDate" "readsToday e"])
     (rule isToday_eq)

lemma yesterday_Cons:
  "countWith (isYesterday e clk todayDate) 0 (t # ts) =
     ((if yesterdayTest e (clk 0) (clk (Suc 0)) todayDate t then 1 else 0)
        + ticketsYesterday e (laterClock clk (readsYesterday e clk t)) todayDate ts,
      readsYesterday e clk t + yesterdayReadings e (laterClock clk (readsYesterday e clk t)) todayDate ts)"
  unfolding ticketsYesterday_def yesterdayReadings_def
  by (rule pass_Cons [of "\<lambda>clk. isYesterday e clk todayDate" "\<lambda>a b. yesterdayTest e a b todayDate"
        "readsYesterday e"])
     (rule isYesterday_eq)

lemma today_agree:
  "\<forall>k < todayReadings e clk todayDate ts. clk k = clk' k \<Longrightarrow>
   countWith (isToday e clk' todayDate) 0 ts = countWith (isToday e clk todayDate) 0 ts"
  unfolding todayReadings_def
  by (rule pass_agree [of "\<lambda>clk. isToday e clk todayDate" "\<lambda>a b. todayTest e a b todayDate" "readsToday e"])
     (simp_all add: isToday_eq readsToday_local)

lemma yesterday_agree:
  "\<forall>k < yesterdayReadings e clk todayDate ts. clk k = clk' k \<Longrightarrow>
   countWith (isYesterday e clk' todayDate) 0 ts = countWith (isYesterday e clk todayDate) 0 ts"
  unfolding yesterdayReadings_def
  by (rule pass_agree [of "\<lambda>clk. isYesterday e clk todayDate" "\<lambda>a b. yesterdayTest e a b todayDate"
        "readsYesterday e"])
     (simp_all add: isYesterday_eq readsYesterday_local)

lemma laterClock_const: "(\<And>k. clk k = now) \<Longrightarrow> laterClock clk r = clk"
  by (simp add: laterClock_def fun_eq_iff)

lemma today_const:
  assumes c: "\<And>k. clk k = now"
  shows "countWith (isToday e clk todayDate) 0 ts =
           (length (filter (countedToday e now todayDate) ts),
            length (filter (\<lambda>t. \<not> noText (selectedRaw t)) ts)
              + length (filter (\<lambda>t. parseDate e now (selectedRaw t) \<noteq> None \<and> isIsoUTC (selectedRaw t)) ts))"
proof (induction ts)
  case Nil
  then show ?case by simp
next
  case (Cons t ts)
  have t: "todayTest e (clk 0) (clk (Suc 0)) todayDate t = countedToday e now todayDate t"
    by (simp add: c todayTest_def countedToday_def)
  have r: "readsToday e clk t =
      (if noText (selectedRaw t) then 0 else 1)
        + (if parseDate e now (selectedRaw t) \<noteq> None \<and> isIsoUTC (selectedRaw t) then 1 else 0)"
    by (auto simp: readsToday_def c parseDate_noText)
  have ih: "ticketsToday e clk todayDate ts = length (filter (countedToday e now todayDate) ts)"
    "todayReadings e clk todayDate ts =
       length (filter (\<lambda>t. \<not> noText (selectedRaw t)) ts)
         + length (filter (\<lambda>t. parseDate e now (selectedRaw t) \<noteq> None \<and> isIsoUTC (selectedRaw t)) ts)"
    using Cons by (simp_all add: ticketsToday_def todayReadings_def)
  show ?case
    unfolding today_Cons laterClock_const [of clk now, OF c] t r ih
    by auto
qed

lemma yesterday_const:
  assumes c: "\<And>k. clk k = now"
  shows "countWith (isYesterday e clk todayDate) 0 ts =
           (length (filter (countedYesterday e now todayDate) ts),
            length (filter (\<lambda>t. \<not> noText (selectedRaw t)) ts)
              + length (filter (\<lambda>t. parseDate e now (selectedRaw t) \<noteq> None) ts))"
proof (induction ts)
  case Nil
  then show ?case by simp
next
  case (Cons t ts)
  have t: "yesterdayTest e (clk 0) (clk (Suc 0)) todayDate t = countedYesterday e now todayDate t"
    by (simp add: c yesterdayTest_def countedYesterday_def)
  have r: "readsYesterday e clk t =
      (if noText (selectedRaw t) then 0 else 1)
        + (if parseDate e now (selectedRaw t) \<noteq> None then 1 else 0)"
    by (auto simp: readsYesterday_def c parseDate_noText)
  have ih: "ticketsYesterday e clk todayDate ts = length (filter (countedYesterday e now todayDate) ts)"
    "yesterdayReadings e clk todayDate ts =
       length (filter (\<lambda>t. \<not> noText (selectedRaw t)) ts)
         + length (filter (\<lambda>t. parseDate e now (selectedRaw t) \<noteq> None) ts)"
    using Cons by (simp_all add: ticketsYesterday_def yesterdayReadings_def)
  show ?case
    unfolding yesterday_Cons laterClock_const [of clk now, OF c] t r ih
    by auto
qed

subsection \<open>The two references of yesterday\<close>

text \<open>
  C6: in a pass of \<^verbatim>\<open>ticketsYesterday\<close> over any tickets, with any clock and any anchor
  \<open>todayDate\<close>, the first ticket is counted exactly when its date parses (the call of
  \<^verbatim>\<open>parseDate\<close> takes the reading \<open>clk 0\<close>) and its key, for a string with the UTC flag, is the
  UTC key of the instant 24 hours before the evaluation instant of the ticket (the reading
  \<open>clk 1\<close> of \<^verbatim>\<open>Date.now()\<close>) and, for any other string, is the local key of local midnight of
  the calendar day before \<open>todayDate\<close>; the other tickets are counted in the same way with
  the readings that follow: none after a ticket without text, one after a ticket whose date
  does not parse, two after a ticket whose date parses. At 13 October 2025, 23:14:42 UTC, on
  a host two hours east of UTC, the first reference is 12 October and the second
  13 October: a ticket of \<^verbatim>\<open>2025-10-12T08:00:00Z\<close> and a ticket of \<^verbatim>\<open>Oct 13, 2025\<close> are counted,
  a ticket of \<^verbatim>\<open>2025-10-13T08:00:00Z\<close> and a ticket of \<^verbatim>\<open>Oct 12, 2025\<close> are not.
\<close>

theorem C6_yesterday_two_paths:
  "ticketsYesterday e clk todayDate [] = 0
   \<and> ticketsYesterday e clk todayDate (t # ts) =
       (if (case parseDate e (clk 0) (selectedRaw t) of
              None \<Rightarrow> False
            | Some d \<Rightarrow>
                if isIsoUTC (selectedRaw t)
                then dateKeyUTC d = dateKeyUTC (clk 1 - 24 * 60 * 60 * 1000)
                else dateKey e d =
                     dateKeyOf e (newDate e (getFullYear e todayDate) (getMonth e todayDate)
                                    (getDate e todayDate - 1) 0 0 0))
        then 1 else 0)
       + ticketsYesterday e (laterClock clk (readsYesterday e clk t)) todayDate ts
   \<and> readsYesterday e clk t =
       (if selectedRaw t = None \<or> selectedRaw t = Some [] then 0
        else if parseDate e (clk 0) (selectedRaw t) = None then 1 else 2)
   \<and> isIsoUTC (selectedRaw (mkTicket None (Some ''2025-10-12T08:00:00Z'')))
   \<and> ticketsYesterday (zoneEnv 7200000) (tickingClock 1760397282000 1) 1760397282000
        [mkTicket None (Some ''2025-10-12T08:00:00Z'')] = 1
   \<and> isIsoUTC (selectedRaw (mkTicket None (Some ''2025-10-13T08:00:00Z'')))
   \<and> ticketsYesterday (zoneEnv 7200000) (tickingClock 1760397282000 1) 1760397282000
        [mkTicket None (Some ''2025-10-13T08:00:00Z'')] = 0
   \<and> \<not> isIsoUTC (selectedRaw (mkTicket None (Some ''Oct 13, 2025'')))
   \<and> ticketsYesterday (zoneEnv 7200000) (tickingClock 1760397282000 1) 1760397282000
        [mkTicket None (Some ''Oct 13, 2025'')] = 1
   \<and> \<not> isIsoUTC (selectedRaw (mkTicket None (Some ''Oct 12, 2025'')))
   \<and> ticketsYesterday (zoneEnv 7200000) (tickingClock 1760397282000 1) 1760397282000
        [mkTicket None (Some ''Oct 12, 2025'')] = 0
   \<and> ticketsYesterday (zoneEnv 7200000) (tickingClock 1760397282000 1) 1760397282000
        [mkTicket None (Some ''2025-10-12T08:00:00Z''), mkTicket None (Some ''2025-10-13T08:00:00Z''),
         mkTicket None (Some ''Oct 13, 2025''), mkTicket None (Some ''Oct 12, 2025''),
         mkTicket None None] = 2
   \<and> dateKeyUTC (tickingClock 1760397282000 1 1 - 24 * 60 * 60 * 1000) = ''2025-10-12''
   \<and> dateKeyOf (zoneEnv 7200000)
        (newDate (zoneEnv 7200000) (getFullYear (zoneEnv 7200000) 1760397282000)
           (getMonth (zoneEnv 7200000) 1760397282000) (getDate (zoneEnv 7200000) 1760397282000 - 1) 0 0 0)
       = ''2025-10-13''"
proof -
  let ?E = "zoneEnv 7200000"
  have general: "ticketsYesterday e clk todayDate (t # ts) =
       (if (case parseDate e (clk 0) (selectedRaw t) of
              None \<Rightarrow> False
            | Some d \<Rightarrow>
                if isIsoUTC (selectedRaw t)
                then dateKeyUTC d = dateKeyUTC (clk 1 - 24 * 60 * 60 * 1000)
                else dateKey e d =
                     dateKeyOf e (newDate e (getFullYear e todayDate) (getMonth e todayDate)
                                    (getDate e todayDate - 1) 0 0 0))
        then 1 else 0)
       + ticketsYesterday e (laterClock clk (readsYesterday e clk t)) todayDate ts"
  proof -
    have test: "yesterdayTest e (clk 0) (clk (Suc 0)) todayDate t =
        (case parseDate e (clk 0) (selectedRaw t) of
              None \<Rightarrow> False
            | Some d \<Rightarrow>
                if isIsoUTC (selectedRaw t)
                then dateKeyUTC d = dateKeyUTC (clk 1 - 24 * 60 * 60 * 1000)
                else dateKey e d =
                     dateKeyOf e (newDate e (getFullYear e todayDate) (getMonth e todayDate)
                                    (getDate e todayDate - 1) 0 0 0))"
      by (simp add: yesterdayTest_def yesterdayDate_def split: option.splits)
    have "ticketsYesterday e clk todayDate (t # ts) =
        fst (countWith (isYesterday e clk todayDate) 0 (t # ts))"
      by (simp only: ticketsYesterday_def)
    also have "\<dots> = (if yesterdayTest e (clk 0) (clk (Suc 0)) todayDate t then 1 else 0)
        + ticketsYesterday e (laterClock clk (readsYesterday e clk t)) todayDate ts"
      by (simp only: yesterday_Cons fst_conv)
    finally show ?thesis
      unfolding test .
  qed
  have reads: "readsYesterday e clk t =
       (if selectedRaw t = None \<or> selectedRaw t = Some [] then 0
        else if parseDate e (clk 0) (selectedRaw t) = None then 1 else 2)"
    by (simp add: readsYesterday_def noText_def)
  have u: "isIsoUTC (Some ''2025-10-12T08:00:00Z'')" "isIsoUTC (Some ''2025-10-13T08:00:00Z'')"
    "\<not> isIsoUTC (Some ''Oct 13, 2025'')" "\<not> isIsoUTC (Some ''Oct 12, 2025'')"
    by code_simp+
  have p0: "parseDate ?E 1760397282000 (Some ''2025-10-12T08:00:00Z'') = Some 1760256000000"
    "parseDate ?E 1760397282000 (Some ''2025-10-13T08:00:00Z'') = Some 1760342400000"
    "parseDate ?E 1760397282000 (Some ''Oct 13, 2025'') = Some 1760306400000"
    "parseDate ?E 1760397282000 (Some ''Oct 12, 2025'') = Some 1760220000000"
    by code_simp+
  have p1: "parseDate ?E 1760397282002 (Some ''2025-10-13T08:00:00Z'') = Some 1760342400000"
    "parseDate ?E 1760397282004 (Some ''Oct 13, 2025'') = Some 1760306400000"
    "parseDate ?E 1760397282006 (Some ''Oct 12, 2025'') = Some 1760220000000"
    by code_simp+
  have k: "dateKeyUTC 1760256000000 = ''2025-10-12''" "dateKeyUTC 1760342400000 = ''2025-10-13''"
    "dateKeyUTC 1760310882001 = ''2025-10-12''" "dateKeyUTC 1760310882003 = ''2025-10-12''"
    "dateKey ?E 1760306400000 = ''2025-10-13''" "dateKey ?E 1760220000000 = ''2025-10-12''"
    by code_simp+
  have y: "dateKeyOf ?E (yesterdayDate ?E 1760397282000) = ''2025-10-13''"
    by code_simp
  have y': "dateKeyOf ?E
        (newDate ?E (getFullYear ?E 1760397282000)
           (getMonth ?E 1760397282000) (getDate ?E 1760397282000 - 1) 0 0 0)
       = ''2025-10-13''"
    using y by (simp add: yesterdayDate_def)
  note defs = ticketsYesterday_def isYesterday_def parseDateAt_def selectedRaw_def mkTicket_def
    tickingClock_def
  have c1: "ticketsYesterday ?E (tickingClock 1760397282000 1) 1760397282000
        [mkTicket None (Some ''2025-10-12T08:00:00Z'')] = 1"
    by (simp add: defs u p0 k y)
  have c2: "ticketsYesterday ?E (tickingClock 1760397282000 1) 1760397282000
        [mkTicket None (Some ''2025-10-13T08:00:00Z'')] = 0"
    by (simp add: defs u p0 k y)
  have c3: "ticketsYesterday ?E (tickingClock 1760397282000 1) 1760397282000
        [mkTicket None (Some ''Oct 13, 2025'')] = 1"
    by (simp add: defs u p0 k y)
  have c4: "ticketsYesterday ?E (tickingClock 1760397282000 1) 1760397282000
        [mkTicket None (Some ''Oct 12, 2025'')] = 0"
    by (simp add: defs u p0 k y)
  have c5: "ticketsYesterday ?E (tickingClock 1760397282000 1) 1760397282000
        [mkTicket None (Some ''2025-10-12T08:00:00Z''), mkTicket None (Some ''2025-10-13T08:00:00Z''),
         mkTicket None (Some ''Oct 13, 2025''), mkTicket None (Some ''Oct 12, 2025''),
         mkTicket None None] = 2"
    by (simp add: defs u p0 p1 k y)
  have r: "dateKeyUTC (tickingClock 1760397282000 1 1 - 24 * 60 * 60 * 1000) = ''2025-10-12''"
    by (simp add: tickingClock_def k)
  have s: "selectedRaw (mkTicket None u) = u" for u
    by (simp add: selectedRaw_def mkTicket_def split: option.splits)
  have e0: "ticketsYesterday e clk todayDate [] = 0"
    by (simp add: ticketsYesterday_def)
  show ?thesis
    unfolding s
    by (intro conjI e0 general reads u c1 c2 c3 c4 c5 r y')
qed

subsection \<open>The readings of a pass\<close>

text \<open>
  C9, as stated, fails: a pass reads the clock again for each ticket. With a ticket updated at
  noon UTC on 13 October 2025 and a clock that passes midnight between the reading inside
  \<^verbatim>\<open>parseDate\<close> and the reading for today's key, \<^verbatim>\<open>ticketsToday\<close> is 0, while the count with the
  instant of the first reading is 1.
\<close>

theorem C9_clock_counterexample:
  "ticketsToday (zoneEnv 0) (tickingClock 1760399999999 2) 1760399999999
     [mkTicket None (Some ''2025-10-13T12:00:00Z'')] = 0
   \<and> length (filter (countedToday (zoneEnv 0) (tickingClock 1760399999999 2 0) 1760399999999)
        [mkTicket None (Some ''2025-10-13T12:00:00Z'')]) = 1"
proof -
  have p: "parseDate (zoneEnv 0) 1760399999999 (Some ''2025-10-13T12:00:00Z'') = Some 1760356800000"
    by code_simp
  have u: "isIsoUTC (Some ''2025-10-13T12:00:00Z'')"
    by code_simp
  have k: "dateKeyUTC 1760356800000 = ''2025-10-13''" "dateKeyUTC 1760399999999 = ''2025-10-13''"
    "dateKeyUTC 1760400000001 = ''2025-10-14''"
    by code_simp+
  show ?thesis
    by (simp add: ticketsToday_def isToday_def parseDateAt_def selectedRaw_def mkTicket_def
        tickingClock_def countedToday_def p u k)
qed

text \<open>
  C9, amended: a pass of \<^verbatim>\<open>ticketsToday\<close> or \<^verbatim>\<open>ticketsYesterday\<close> reads the clock for each ticket
  again. A ticket without text takes no reading; any other ticket takes one reading inside
  \<^verbatim>\<open>parseDate\<close> and, when its date parses, one more for the reference of the comparison (in
  \<^verbatim>\<open>ticketsToday\<close> only when the string has the UTC flag); the readings of a pass are the sum
  over its tickets, each ticket starting where the one before stopped, and each ticket is
  tested with its own two readings. The result of a pass depends on the clock only through
  the readings it takes: two clocks that agree on them give the same counts and the same
  number of readings. When all readings give one instant, the counts are the counts computed
  with that instant, and the readings are one for each ticket with text and one more for each
  ticket whose date parses (in \<^verbatim>\<open>ticketsToday\<close>: parses and has the UTC flag).
\<close>

theorem C9_readings_of_a_pass:
  "todayReadings e clk todayDate [] = 0
   \<and> todayReadings e clk todayDate (t # ts) =
       readsToday e clk t + todayReadings e (laterClock clk (readsToday e clk t)) todayDate ts
   \<and> readsToday e clk t =
       (if selectedRaw t = None \<or> selectedRaw t = Some [] then 0
        else if parseDate e (clk 0) (selectedRaw t) = None then 1
        else if isIsoUTC (selectedRaw t) then 2 else 1)
   \<and> ticketsToday e clk todayDate (t # ts) =
       (if todayTest e (clk 0) (clk 1) todayDate t then 1 else 0)
       + ticketsToday e (laterClock clk (readsToday e clk t)) todayDate ts
   \<and> yesterdayReadings e clk todayDate [] = 0
   \<and> yesterdayReadings e clk todayDate (t # ts) =
       readsYesterday e clk t
       + yesterdayReadings e (laterClock clk (readsYesterday e clk t)) todayDate ts
   \<and> readsYesterday e clk t =
       (if selectedRaw t = None \<or> selectedRaw t = Some [] then 0
        else if parseDate e (clk 0) (selectedRaw t) = None then 1 else 2)
   \<and> ticketsYesterday e clk todayDate (t # ts) =
       (if yesterdayTest e (clk 0) (clk 1) todayDate t then 1 else 0)
       + ticketsYesterday e (laterClock clk (readsYesterday e clk t)) todayDate ts
   \<and> ((\<forall>k < todayReadings e clk todayDate tickets. clk k = clk' k) \<longrightarrow>
        ticketsToday e clk' todayDate tickets = ticketsToday e clk todayDate tickets
        \<and> todayReadings e clk' todayDate tickets = todayReadings e clk todayDate tickets)
   \<and> ((\<forall>k < yesterdayReadings e clk todayDate tickets. clk k = clk' k) \<longrightarrow>
        ticketsYesterday e clk' todayDate tickets = ticketsYesterday e clk todayDate tickets
        \<and> yesterdayReadings e clk' todayDate tickets = yesterdayReadings e clk todayDate tickets)
   \<and> ((\<forall>k. clk k = now) \<longrightarrow>
        ticketsToday e clk todayDate tickets = length (filter (countedToday e now todayDate) tickets)
        \<and> ticketsYesterday e clk todayDate tickets
            = length (filter (countedYesterday e now todayDate) tickets)
        \<and> todayReadings e clk todayDate tickets
            = length (filter (\<lambda>t. \<not> (selectedRaw t = None \<or> selectedRaw t = Some [])) tickets)
              + length (filter (\<lambda>t. parseDate e now (selectedRaw t) \<noteq> None \<and> isIsoUTC (selectedRaw t))
                          tickets)
        \<and> yesterdayReadings e clk todayDate tickets
            = length (filter (\<lambda>t. \<not> (selectedRaw t = None \<or> selectedRaw t = Some [])) tickets)
              + length (filter (\<lambda>t. parseDate e now (selectedRaw t) \<noteq> None) tickets))"
proof -
  have t0: "todayReadings e clk todayDate [] = 0" "yesterdayReadings e clk todayDate [] = 0"
    by (simp_all add: todayReadings_def yesterdayReadings_def)
  have t1: "todayReadings e clk todayDate (t # ts) =
       readsToday e clk t + todayReadings e (laterClock clk (readsToday e clk t)) todayDate ts"
    using today_Cons [of e clk todayDate t ts]
    by (simp add: todayReadings_def del: countWith.simps)
  have t2: "readsToday e clk t =
       (if selectedRaw t = None \<or> selectedRaw t = Some [] then 0
        else if parseDate e (clk 0) (selectedRaw t) = None then 1
        else if isIsoUTC (selectedRaw t) then 2 else 1)"
    by (simp add: readsToday_def noText_def)
  have t3: "ticketsToday e clk todayDate (t # ts) =
       (if todayTest e (clk 0) (clk 1) todayDate t then 1 else 0)
       + ticketsToday e (laterClock clk (readsToday e clk t)) todayDate ts"
    using today_Cons [of e clk todayDate t ts]
    by (simp add: ticketsToday_def del: countWith.simps)
  have y1: "yesterdayReadings e clk todayDate (t # ts) =
       readsYesterday e clk t
       + yesterdayReadings e (laterClock clk (readsYesterday e clk t)) todayDate ts"
    using yesterday_Cons [of e clk todayDate t ts]
    by (simp add: yesterdayReadings_def del: countWith.simps)
  have y2: "readsYesterday e clk t =
       (if selectedRaw t = None \<or> selectedRaw t = Some [] then 0
        else if parseDate e (clk 0) (selectedRaw t) = None then 1 else 2)"
    by (simp add: readsYesterday_def noText_def)
  have y3: "ticketsYesterday e clk todayDate (t # ts) =
       (if yesterdayTest e (clk 0) (clk 1) todayDate t then 1 else 0)
       + ticketsYesterday e (laterClock clk (readsYesterday e clk t)) todayDate ts"
    using yesterday_Cons [of e clk todayDate t ts]
    by (simp add: ticketsYesterday_def del: countWith.simps)
  have a1: "(\<forall>k < todayReadings e clk todayDate tickets. clk k = clk' k) \<longrightarrow>
        ticketsToday e clk' todayDate tickets = ticketsToday e clk todayDate tickets
        \<and> todayReadings e clk' todayDate tickets = todayReadings e clk todayDate tickets"
    using today_agree [of e clk todayDate tickets clk']
    by (simp add: ticketsToday_def todayReadings_def)
  have a2: "(\<forall>k < yesterdayReadings e clk todayDate tickets. clk k = clk' k) \<longrightarrow>
        ticketsYesterday e clk' todayDate tickets = ticketsYesterday e clk todayDate tickets
        \<and> yesterdayReadings e clk' todayDate tickets = yesterdayReadings e clk todayDate tickets"
    using yesterday_agree [of e clk todayDate tickets clk']
    by (simp add: ticketsYesterday_def yesterdayReadings_def)
  have c: "(\<forall>k. clk k = now) \<longrightarrow>
        ticketsToday e clk todayDate tickets = length (filter (countedToday e now todayDate) tickets)
        \<and> ticketsYesterday e clk todayDate tickets
            = length (filter (countedYesterday e now todayDate) tickets)
        \<and> todayReadings e clk todayDate tickets
            = length (filter (\<lambda>t. \<not> (selectedRaw t = None \<or> selectedRaw t = Some [])) tickets)
              + length (filter (\<lambda>t. parseDate e now (selectedRaw t) \<noteq> None \<and> isIsoUTC (selectedRaw t))
                          tickets)
        \<and> yesterdayReadings e clk todayDate tickets
            = length (filter (\<lambda>t. \<not> (selectedRaw t = None \<or> selectedRaw t = Some [])) tickets)
              + length (filter (\<lambda>t. parseDate e now (selectedRaw t) \<noteq> None) tickets)"
  proof
    assume h: "\<forall>k. clk k = now"
    have td: "countWith (isToday e clk todayDate) 0 tickets =
           (length (filter (countedToday e now todayDate) tickets),
            length (filter (\<lambda>t. \<not> noText (selectedRaw t)) tickets)
              + length (filter (\<lambda>t. parseDate e now (selectedRaw t) \<noteq> None \<and> isIsoUTC (selectedRaw t))
                          tickets))"
      by (rule today_const) (simp add: h)
    have yd: "countWith (isYesterday e clk todayDate) 0 tickets =
           (length (filter (countedYesterday e now todayDate) tickets),
            length (filter (\<lambda>t. \<not> noText (selectedRaw t)) tickets)
              + length (filter (\<lambda>t. parseDate e now (selectedRaw t) \<noteq> None) tickets))"
      by (rule yesterday_const) (simp add: h)
    show "ticketsToday e clk todayDate tickets = length (filter (countedToday e now todayDate) tickets)
        \<and> ticketsYesterday e clk todayDate tickets
            = length (filter (countedYesterday e now todayDate) tickets)
        \<and> todayReadings e clk todayDate tickets
            = length (filter (\<lambda>t. \<not> (selectedRaw t = None \<or> selectedRaw t = Some [])) tickets)
              + length (filter (\<lambda>t. parseDate e now (selectedRaw t) \<noteq> None \<and> isIsoUTC (selectedRaw t))
                          tickets)
        \<and> yesterdayReadings e clk todayDate tickets
            = length (filter (\<lambda>t. \<not> (selectedRaw t = None \<or> selectedRaw t = Some [])) tickets)
              + length (filter (\<lambda>t. parseDate e now (selectedRaw t) \<noteq> None) tickets)"
      by (simp add: ticketsToday_def ticketsYesterday_def todayReadings_def yesterdayReadings_def
          td yd noText_def)
  qed
  show ?thesis
    by (intro conjI t0 t1 t2 t3 y1 y2 y3 a1 a2 c)
qed

theorem C9_readings_of_a_pass_witness:
  "(\<forall>k. constClock 1760399999999 k = 1760399999999)
   \<and> yesterdayReadings (zoneEnv 0) (constClock 1760399999999) 1760399999999
        [mkTicket None (Some ''2025-10-13T12:00:00Z'')] = 2
   \<and> todayReadings (zoneEnv 0) (constClock 1760399999999) 1760399999999
        [mkTicket None (Some ''2025-10-13T12:00:00Z'')] = 2
   \<and> todayReadings (zoneEnv 0) (\<lambda>k. if k < 2 then 1760399999999 else 1760400000001) 1760399999999
        [mkTicket None (Some ''2025-10-13T12:00:00Z'')] = 2
   \<and> yesterdayReadings (zoneEnv 0) (\<lambda>k. if k < 2 then 1760399999999 else 1760400000001) 1760399999999
        [mkTicket None (Some ''2025-10-13T12:00:00Z'')] = 2
   \<and> ticketsToday (zoneEnv 0) (\<lambda>k. if k < 2 then 1760399999999 else 1760400000001) 1760399999999
        [mkTicket None (Some ''2025-10-13T12:00:00Z'')] = 1
   \<and> ticketsToday (zoneEnv 0) (constClock 1760399999999) 1760399999999
        [mkTicket None (Some ''2025-10-13T12:00:00Z'')] = 1
   \<and> ticketsYesterday (zoneEnv 0) (\<lambda>k. if k < 2 then 1760399999999 else 1760400000001) 1760399999999
        [mkTicket None (Some ''2025-10-13T12:00:00Z'')] = 0
   \<and> ticketsYesterday (zoneEnv 0) (constClock 1760399999999) 1760399999999
        [mkTicket None (Some ''2025-10-13T12:00:00Z'')] = 0"
proof -
  let ?E = "zoneEnv 0"
  let ?a = "1760399999999 :: int"
  let ?T = "mkTicket None (Some ''2025-10-13T12:00:00Z'')"
  let ?c = "constClock ?a"
  let ?c' = "\<lambda>k :: nat. if k < 2 then ?a else 1760400000001"
  have p: "parseDate ?E ?a (Some ''2025-10-13T12:00:00Z'') = Some 1760356800000"
    by code_simp
  have u: "isIsoUTC (Some ''2025-10-13T12:00:00Z'')"
    by code_simp
  have k: "dateKeyUTC 1760356800000 = ''2025-10-13''" "dateKeyUTC 1760399999999 = ''2025-10-13''"
    "dateKeyUTC 1760313599999 = ''2025-10-12''"
    by code_simp+
  have s: "selectedRaw ?T = Some ''2025-10-13T12:00:00Z''"
    by (simp add: selectedRaw_def mkTicket_def)
  have r1: "todayReadings ?E ?c ?a [?T] = 2"
    by (simp add: todayReadings_def isToday_def parseDateAt_def constClock_def s p u)
  have r2: "yesterdayReadings ?E ?c ?a [?T] = 2"
    by (simp add: yesterdayReadings_def isYesterday_def parseDateAt_def constClock_def s p u)
  have h1: "\<forall>k < todayReadings ?E ?c ?a [?T]. ?c k = ?c' k"
    by (simp add: r1 constClock_def)
  have h2: "\<forall>k < yesterdayReadings ?E ?c ?a [?T]. ?c k = ?c' k"
    by (simp add: r2 constClock_def)
  have h3: "\<forall>k. ?c k = ?a"
    by (simp add: constClock_def)
  have n1: "length (filter (countedToday ?E ?a ?a) [?T]) = 1"
    by (simp add: countedToday_def s p u k)
  have n2: "length (filter (countedYesterday ?E ?a ?a) [?T]) = 0"
    by (simp add: countedYesterday_def s p u k)
  note inst = C9_readings_of_a_pass [of ?E ?c ?a ?T "[]" "[?T]" ?c' ?a]
  have a1: "ticketsToday ?E ?c' ?a [?T] = ticketsToday ?E ?c ?a [?T]
        \<and> todayReadings ?E ?c' ?a [?T] = todayReadings ?E ?c ?a [?T]"
    using inst h1 by blast
  have a2: "ticketsYesterday ?E ?c' ?a [?T] = ticketsYesterday ?E ?c ?a [?T]
        \<and> yesterdayReadings ?E ?c' ?a [?T] = yesterdayReadings ?E ?c ?a [?T]"
    using inst h2 by blast
  have c: "ticketsToday ?E ?c ?a [?T] = length (filter (countedToday ?E ?a ?a) [?T])
        \<and> ticketsYesterday ?E ?c ?a [?T] = length (filter (countedYesterday ?E ?a ?a) [?T])"
    using inst h3 by blast
  show ?thesis
    using h3 a1 a2 c
    by (simp only: r1 r2 n1 n2 simp_thms)
qed

section \<open>Cleanup before parsing\<close>

subsection \<open>Literal text and runs of a class\<close>

lemma ms_litsi:
  "ms (litsi k) (p, s, c) =
     (if beginsWith k s then [(lastOr p (take (length k) s), drop (length k) s, c)] else [])"
proof (induction k arbitrary: p s)
  case Nil
  then show ?case
    by (simp add: litsi_def beginsWith_def)
next
  case (Cons a k)
  show ?case
  proof (cases k)
    case Nil
    then show ?thesis
      by (cases s) (auto simp: litsi_def liti_def beginsWith_def)
  next
    case (Cons b k')
    have step: "ms (litsi (a # b # k')) (p, s, c) =
        concat (map (ms (litsi (b # k'))) (ms (liti a) (p, s, c)))"
      by (simp add: litsi_def)
    show ?thesis
    proof (cases s)
      case Nil
      then show ?thesis
        using Cons step by (simp add: liti_def beginsWith_def)
    next
      case s: (Cons x t)
      show ?thesis
        using Cons step s Cons.IH [of "Some x" t]
        by (auto simp: liti_def beginsWith_def)
    qed
  qed
qed

lemma lower_digit:
  assumes "isDigit x"
  shows "toLowerC x = x"
proof -
  have "list_all (\<lambda>x. toLowerC x = x) ''0123456789''"
    by code_simp
  then have "\<forall>x \<in> set ''0123456789''. toLowerC x = x"
    unfolding list_all_iff .
  then show ?thesis
    using assms unfolding isDigit_def by (rule bspec)
qed

lemma lower_space:
  assumes "isSpace x"
  shows "toLowerC x = x"
proof -
  have "list_all (\<lambda>x. toLowerC x = x) [CHR 0x09, CHR 0x0A, CHR 0x0B, CHR 0x0C, CHR 0x0D, CHR 0x20, CHR 0xA0]"
    by code_simp
  then have "\<forall>x \<in> set [CHR 0x09, CHR 0x0A, CHR 0x0B, CHR 0x0C, CHR 0x0D, CHR 0x20, CHR 0xA0]. toLowerC x = x"
    unfolding list_all_iff .
  then show ?thesis
    using assms unfolding isSpace_def by (rule bspec)
qed

lemma begins_Cons: "beginsWith (a # k) (x # t) = (toLowerC x = toLowerC a \<and> beginsWith k t)"
  by (simp add: beginsWith_def)

lemma begins_Nil [simp]: "\<not> beginsWith (a # k) []"
  by (simp add: beginsWith_def)

lemma digit_begins:
  assumes "isDigit x"
  shows "\<not> beginsWith ''st'' (x # t)" "\<not> beginsWith ''nd'' (x # t)" "\<not> beginsWith ''rd'' (x # t)"
    "\<not> beginsWith ''th'' (x # t)"
proof -
  have l: "\<not> isDigit (toLowerC CHR ''s'')" "\<not> isDigit (toLowerC CHR ''n'')"
    "\<not> isDigit (toLowerC CHR ''r'')" "\<not> isDigit (toLowerC CHR ''t'')"
    by code_simp+
  have "toLowerC x \<noteq> toLowerC a" if "\<not> isDigit (toLowerC a)" for a
    using that assms lower_digit [OF assms] by auto
  then show "\<not> beginsWith ''st'' (x # t)" "\<not> beginsWith ''nd'' (x # t)"
    "\<not> beginsWith ''rd'' (x # t)" "\<not> beginsWith ''th'' (x # t)"
    using l by (simp_all add: begins_Cons)
qed

lemma space_begins:
  assumes "isSpace x"
  shows "\<not> beginsWith ''GMT'' (x # t)"
proof -
  have l: "\<not> isSpace (toLowerC CHR ''G'')"
    by code_simp
  have "toLowerC x \<noteq> toLowerC a" if "\<not> isSpace (toLowerC a)" for a
    using that assms lower_space [OF assms] by auto
  then show ?thesis
    using l by (simp add: begins_Cons)
qed

lemma concat_map_Nil: "(\<And>x. x \<in> set xs \<Longrightarrow> f x = []) \<Longrightarrow> concat (map f xs) = []"
  by (induction xs) auto

lemma drop_in_run:
  assumes "k < length (takeWhile P s)"
  shows "\<exists>x t. drop k s = x # t \<and> P x"
proof -
  have ks: "k < length s"
    using assms length_takeWhile_le [of P s] by simp
  have "s ! k = takeWhile P s ! k"
    using assms by (simp add: takeWhile_nth)
  then have "P (s ! k)"
    using assms by (metis nth_mem set_takeWhileD)
  moreover have "drop k s = s ! k # drop (Suc k) s"
    using ks by (simp add: Cons_nth_drop_Suc)
  ultimately show ?thesis
    by blast
qed

lemma run_states:
  "ms (Rep (Suc 0) None True (Chr P)) (p, s, c) =
     map (\<lambda>k. (lastOr p (take k s), drop k s, c)) (rev [Suc 0..<Suc (length (takeWhile P s))])"
  by (simp add: ms_rep_chr cands_closed Let_def)

lemma rev_upt_last: "Suc 0 \<le> n \<Longrightarrow> rev [Suc 0..<Suc n] = n # rev [Suc 0..<n]"
  by simp

lemma ms_run_then:
  assumes stuck: "\<And>p x t c. P x \<Longrightarrow> ms r (p, x # t, c) = []"
  shows "ms (Seq (Rep (Suc 0) None True (Chr P)) r) (p, s, c) =
     (if takeWhile P s = [] then [] else ms r (lastOr p (takeWhile P s), dropWhile P s, c))"
proof (cases "takeWhile P s = []")
  case True
  then show ?thesis
    by (simp add: run_states)
next
  case False
  let ?n = "length (takeWhile P s)"
  let ?f = "\<lambda>k. ms r (lastOr p (take k s), drop k s, c)"
  have n: "Suc 0 \<le> ?n"
    using False by (cases "takeWhile P s") auto
  have rest: "concat (map ?f (rev [Suc 0..<?n])) = []"
  proof (rule concat_map_Nil)
    fix k
    assume "k \<in> set (rev [Suc 0..<?n])"
    then have "k < ?n"
      by simp
    then obtain x t where "drop k s = x # t" "P x"
      using drop_in_run by blast
    then show "?f k = []"
      by (simp add: stuck)
  qed
  have "ms (Seq (Rep (Suc 0) None True (Chr P)) r) (p, s, c) = concat (map ?f (rev [Suc 0..<Suc ?n]))"
    by (simp add: run_states comp_def del: upt_Suc)
  also have "\<dots> = ?f ?n"
    unfolding rev_upt_last [OF n] using rest by simp
  also have "\<dots> = ms r (lastOr p (takeWhile P s), dropWhile P s, c)"
    by (simp add: takeWhile_eq_take [symmetric] dropWhile_eq_drop [symmetric])
  finally show ?thesis
    using False by simp
qed

lemma take_run: "take (length s - length (dropWhile P s)) s = takeWhile P s"
proof -
  have "length s = length (takeWhile P s) + length (dropWhile P s)"
    by (metis length_append takeWhile_dropWhile_id)
  then have "length s - length (dropWhile P s) = length (takeWhile P s)"
    by simp
  then show ?thesis
    by (simp add: takeWhile_eq_take [symmetric])
qed

lemma ms_grp_run_then:
  assumes stuck: "\<And>p x t c. P x \<Longrightarrow> ms r (p, x # t, c) = []"
  shows "ms (Seq (Grp i (Rep (Suc 0) None True (Chr P))) r) (p, s, c) =
     (if takeWhile P s = [] then []
      else ms r (lastOr p (takeWhile P s), dropWhile P s, c(i \<mapsto> takeWhile P s)))"
proof (cases "takeWhile P s = []")
  case True
  then show ?thesis
    by (simp add: run_states)
next
  case False
  let ?n = "length (takeWhile P s)"
  let ?f = "\<lambda>k. ms r (lastOr p (take k s), drop k s, c(i \<mapsto> take (length s - length (drop k s)) s))"
  have n: "Suc 0 \<le> ?n"
    using False by (cases "takeWhile P s") auto
  have ns: "?n \<le> length s"
    by (rule length_takeWhile_le)
  have rest: "concat (map ?f (rev [Suc 0..<?n])) = []"
  proof (rule concat_map_Nil)
    fix k
    assume "k \<in> set (rev [Suc 0..<?n])"
    then have "k < ?n"
      by simp
    then obtain x t where "drop k s = x # t" "P x"
      using drop_in_run by blast
    then show "?f k = []"
      by (simp add: stuck)
  qed
  have "ms (Seq (Grp i (Rep (Suc 0) None True (Chr P))) r) (p, s, c)
      = concat (map ?f (rev [Suc 0..<Suc ?n]))"
    by (simp add: run_states comp_def del: upt_Suc)
  also have "\<dots> = ?f ?n"
    unfolding rev_upt_last [OF n] using rest by simp
  also have "\<dots> = ms r (lastOr p (takeWhile P s), dropWhile P s, c(i \<mapsto> takeWhile P s))"
    by (simp add: takeWhile_eq_take [symmetric] dropWhile_eq_drop [symmetric] take_run)
  finally show ?thesis
    using False by simp
qed

lemma all_run: "(length s \<le> length (takeWhile P s)) = list_all P s"
  by (induction s) auto

lemma concat_map_single:
  "distinct xs \<Longrightarrow>
   concat (map (\<lambda>k. if k = a then [g k] else []) xs) = (if a \<in> set xs then [g a] else [])"
  by (induction xs) auto

lemma ms_run_eol:
  assumes "case mx of None \<Rightarrow> True | Some m \<Rightarrow> mn \<le> m"
  shows "ms (Seq (Rep mn mx True (Chr P)) Eol) (p, s, c) =
     (if list_all P s \<and> mn \<le> length s \<and> (case mx of None \<Rightarrow> True | Some m \<Rightarrow> length s \<le> m)
      then [(lastOr p s, [], c)] else [])"
proof -
  define n where "n = length (takeWhile P s)"
  define h where "h = (case mx of None \<Rightarrow> n | Some m \<Rightarrow> min n m)"
  define L where "L = rev [mn..<Suc h]"
  let ?g = "\<lambda>k. (lastOr p (take k s), drop k s, c)"
  have ns: "n \<le> length s"
    unfolding n_def by (rule length_takeWhile_le)
  have hn: "h \<le> n"
    unfolding h_def by (cases mx) auto
  have inL: "(k \<in> set L) = (mn \<le> k \<and> k \<le> h)" for k
    unfolding L_def by auto
  have states: "ms (Rep mn mx True (Chr P)) (p, s, c) = map ?g L"
    using assms unfolding L_def h_def n_def by (simp add: ms_rep_chr cands_closed Let_def)
  have "ms (Seq (Rep mn mx True (Chr P)) Eol) (p, s, c) = concat (map (\<lambda>k. ms Eol (?g k)) L)"
    unfolding ms.simps(3) states by (simp add: comp_def)
  also have "map (\<lambda>k. ms Eol (?g k)) L = map (\<lambda>k. if k = length s then [?g k] else []) L"
  proof (rule map_cong [OF refl])
    fix k
    assume "k \<in> set L"
    then have "k \<le> length s"
      using hn ns inL by simp
    then show "ms Eol (?g k) = (if k = length s then [?g k] else [])"
      by auto
  qed
  also have "concat \<dots> = (if length s \<in> set L then [?g (length s)] else [])"
    by (rule concat_map_single) (simp add: L_def)
  also have "(length s \<in> set L)
      = (list_all P s \<and> mn \<le> length s \<and> (case mx of None \<Rightarrow> True | Some m \<Rightarrow> length s \<le> m))"
    using ns all_run [of s P] unfolding inL h_def n_def by (cases mx) auto
  finally show ?thesis
    by simp
qed

lemma ms_seq_litsi:
  "ms (Seq (litsi k) r) (p, s, c) =
     (if beginsWith k s then ms r (lastOr p (take (length k) s), drop (length k) s, c) else [])"
  by (simp add: ms_litsi)

lemma ms_seq_chr:
  "ms (Seq (Chr P) r) (p, s, c) = (case s of [] \<Rightarrow> [] | x # t \<Rightarrow> if P x then ms r (Some x, t, c) else [])"
  by (cases s) simp_all

subsection \<open>The four expressions at one position\<close>

lemma ordinal_tail_stuck:
  "isDigit x \<Longrightarrow>
   ms (Grp 2 (Alt (litsi ''st'') (Alt (litsi ''nd'') (Alt (litsi ''rd'') (litsi ''th''))))) (p, x # t, c) = []"
  by (simp add: ms_litsi digit_begins)

lemma ms_reOrdinal:
  "ms reOrdinal (p, s, c) =
     (if takeWhile isDigit s = [] then []
      else ms (Grp 2 (Alt (litsi ''st'') (Alt (litsi ''nd'') (Alt (litsi ''rd'') (litsi ''th'')))))
             (lastOr p (takeWhile isDigit s), dropWhile isDigit s, c(1 \<mapsto> takeWhile isDigit s)))"
  unfolding reOrdinal_def One_nat_def
  by (rule ms_grp_run_then) (rule ordinal_tail_stuck)

lemma ms_reOrdinal_miss: "\<not> ordinalAhead s \<Longrightarrow> ms reOrdinal (p, s, c) = []"
  by (auto simp: ms_reOrdinal ordinalAhead_def ms_litsi)

lemma ms_reOrdinal_hit:
  assumes "ordinalAhead s"
  shows "\<exists>p' c' rest. ms reOrdinal (p, s, c) = (p', drop 2 (dropWhile isDigit s), c') # rest
           \<and> c' 1 = Some (takeWhile isDigit s)"
  using assms
  by (auto simp: ms_reOrdinal ordinalAhead_def ms_litsi eval_nat_numeral)

lemma ms_reUpdatedCreated_miss:
  "\<not> (beginsWith ''Updated'' s \<or> beginsWith ''Created'' s) \<Longrightarrow> ms reUpdatedCreated (p, s, c) = []"
  by (simp add: reUpdatedCreated_def ms_litsi)

lemma ms_reUpdatedCreated_hit:
  "beginsWith ''Updated'' s \<or> beginsWith ''Created'' s \<Longrightarrow>
   \<exists>p' c' rest. ms reUpdatedCreated (p, s, c) = (p', drop 7 s, c') # rest"
  by (auto simp: reUpdatedCreated_def ms_litsi eval_nat_numeral)

lemma ms_reFromIP:
  "ms reFromIP (p, s, c) =
     (if fromIPTail s then [(lastOr (lastOr p (take 7 s)) (drop 7 s), [], c)] else [])"
proof -
  have tail: "ms (Seq (Rep 0 None True (Chr isDot)) Eol) (q, u, c) =
      (if list_all isDot u then [(lastOr q u, [], c)] else [])" for q u
    using ms_run_eol [where mx = None and mn = 0 and P = isDot and p = q and s = u and c = c] by simp
  show ?thesis
    by (simp add: reFromIP_def ms_seq_litsi tail fromIPTail_def eval_nat_numeral del: ms.simps(3))
qed

lemma gmt_tail_stuck:
  "isSpace x \<Longrightarrow>
   ms (Seq (litsi ''GMT'') (Seq (Chr (\<lambda>x. x = CHR ''+'' \<or> x = CHR ''-'')) (Seq (Rep 2 (Some 4) True (Chr isDigit)) Eol)))
      (p, x # t, c) = []"
  by (simp add: ms_litsi space_begins)

lemma ms_reGMT_miss: "\<not> offsetTail s \<Longrightarrow> ms reGMT (p, s, c) = []"
proof -
  have digits: "ms (Seq (Rep 2 (Some 4) True (Chr isDigit)) Eol) (q, u, c) =
      (if list_all isDigit u \<and> 2 \<le> length u \<and> length u \<le> 4 then [(lastOr q u, [], c)] else [])" for q u
    using ms_run_eol [where mx = "Some 4" and mn = 2 and P = isDigit and p = q and s = u and c = c] by simp
  assume a: "\<not> offsetTail s"
  have "ms reGMT (p, s, c) =
      (if takeWhile isSpace s = [] then []
       else ms (Seq (litsi ''GMT'') (Seq (Chr (\<lambda>x. x = CHR ''+'' \<or> x = CHR ''-''))
                  (Seq (Rep 2 (Some 4) True (Chr isDigit)) Eol)))
              (lastOr p (takeWhile isSpace s), dropWhile isSpace s, c))"
    unfolding reGMT_def seqs.simps One_nat_def
    by (rule ms_run_then) (rule gmt_tail_stuck)
  then show ?thesis
    using a
    by (auto simp: offsetTail_def ms_seq_litsi ms_seq_chr digits numeral_3_eq_3
        simp del: ms.simps(3) split: list.splits)
qed

lemma ms_reGMT_hit:
  assumes "offsetTail s"
  shows "\<exists>p' c' rest. ms reGMT (p, s, c) = (p', [], c') # rest"
proof -
  have digits: "ms (Seq (Rep 2 (Some 4) True (Chr isDigit)) Eol) (q, u, c) =
      (if list_all isDigit u \<and> 2 \<le> length u \<and> length u \<le> 4 then [(lastOr q u, [], c)] else [])" for q u
    using ms_run_eol [where mx = "Some 4" and mn = 2 and P = isDigit and p = q and s = u and c = c] by simp
  have "ms reGMT (p, s, c) =
      (if takeWhile isSpace s = [] then []
       else ms (Seq (litsi ''GMT'') (Seq (Chr (\<lambda>x. x = CHR ''+'' \<or> x = CHR ''-''))
                  (Seq (Rep 2 (Some 4) True (Chr isDigit)) Eol)))
              (lastOr p (takeWhile isSpace s), dropWhile isSpace s, c))"
    unfolding reGMT_def seqs.simps One_nat_def
    by (rule ms_run_then) (rule gmt_tail_stuck)
  then show ?thesis
    using assms
    by (auto simp: offsetTail_def ms_seq_litsi ms_seq_chr digits numeral_3_eq_3
        simp del: ms.simps(3) split: list.splits)
qed

subsection \<open>The four replacements\<close>

declare gsubFrom.simps [simp del]

lemma search_cut:
  assumes hit: "\<And>p s c. Q s \<Longrightarrow> \<exists>p' c' rest. ms r (p, s, c) = (p', [], c') # rest"
    and miss: "\<And>p s c. \<not> Q s \<Longrightarrow> ms r (p, s, c) = []"
  shows "(case search r acc p s of None \<Rightarrow> rev acc @ s | Some (b, m, c, a) \<Rightarrow> b @ a)
           = rev acc @ cutAt Q s"
proof (induction s arbitrary: acc p)
  case Nil
  show ?case
  proof (cases "Q []")
    case True
    then obtain p' c' rest where "ms r (p, [], Map.empty) = (p', [], c') # rest"
      using hit by blast
    then show ?thesis
      by (simp add: search.simps [of r acc p "[]"] del: search.simps)
  next
    case False
    then have "ms r (p, [], Map.empty) = []"
      by (rule miss)
    then show ?thesis
      by (simp add: search.simps [of r acc p "[]"] del: search.simps)
  qed
next
  case (Cons x t)
  show ?case
  proof (cases "Q (x # t)")
    case True
    then obtain p' c' rest where "ms r (p, x # t, Map.empty) = (p', [], c') # rest"
      using hit by blast
    then show ?thesis
      using True by (simp add: search.simps [of r acc p "x # t"] del: search.simps)
  next
    case False
    then have "ms r (p, x # t, Map.empty) = []"
      by (rule miss)
    then show ?thesis
      using False Cons.IH [of "x # acc" "Some x"]
      by (auto simp add: search.simps [of r acc p "x # t"] simp del: search.simps split: option.splits)
  qed
qed

lemma replace1_cut:
  assumes hit: "\<And>p s c. Q s \<Longrightarrow> \<exists>p' c' rest. ms r (p, s, c) = (p', [], c') # rest"
    and miss: "\<And>p s c. \<not> Q s \<Longrightarrow> ms r (p, s, c) = []"
  shows "replace1 r (literal []) w = cutAt Q w"
  using search_cut [where Q = Q and r = r and acc = "[]" and p = None and s = w, OF hit miss]
  by (simp add: replace1_def exec_def literal_def split: option.splits prod.splits)

lemma replace1_reFromIP: "replace1 reFromIP (literal []) w = cutFromIP w"
  unfolding cutFromIP_def
  by (rule replace1_cut) (simp_all add: ms_reFromIP)

lemma replace1_reGMT: "replace1 reGMT (literal []) w = stripOffset w"
  unfolding stripOffset_def
  by (rule replace1_cut) (simp_all add: ms_reGMT_hit ms_reGMT_miss)

lemma consumed:
  assumes "s = u @ v"
  shows "length s - length v = length u" "drop (length u) s = v"
  using assms by simp_all

lemma ordinal_consumed:
  assumes "ordinalAhead s"
  shows "\<exists>u. u \<noteq> [] \<and> s = u @ drop 2 (dropWhile isDigit s)"
proof -
  have "s = (takeWhile isDigit s @ take 2 (dropWhile isDigit s)) @ drop 2 (dropWhile isDigit s)"
    by simp
  moreover have "takeWhile isDigit s @ take 2 (dropWhile isDigit s) \<noteq> []"
    using assms by (simp add: ordinalAhead_def)
  ultimately show ?thesis
    by blast
qed

lemma gsub_reOrdinal: "gsubFrom reOrdinal dollar1 p s = stripOrdinals s"
proof (induction s arbitrary: p rule: stripOrdinals.induct)
  case 1
  have "\<not> ordinalAhead []"
    by (simp add: ordinalAhead_def)
  then have "ms reOrdinal (p, [], Map.empty) = []"
    by (rule ms_reOrdinal_miss)
  then show ?case
    by (subst gsubFrom.simps) simp
next
  case (2 x t)
  show ?case
  proof (cases "ordinalAhead (x # t)")
    case True
    let ?v = "drop 2 (dropWhile isDigit (x # t))"
    obtain p' c' rest where m: "ms reOrdinal (p, x # t, Map.empty) = (p', ?v, c') # rest"
      and g: "c' 1 = Some (takeWhile isDigit (x # t))"
      using ms_reOrdinal_hit [OF True] by blast
    obtain u where u: "u \<noteq> []" "x # t = u @ ?v"
      using ordinal_consumed [OF True] by blast
    have k: "length (x # t) - length ?v = length u" "drop (length u) (x # t) = ?v"
      using consumed [OF u(2)] by simp_all
    have "gsubFrom reOrdinal dollar1 p (x # t) = dollar1 c' @ gsubFrom reOrdinal dollar1 p' ?v"
      by (subst gsubFrom.simps) (simp only: m k list.case prod.case Let_def length_0_conv u(1) if_False)
    also have "\<dots> = takeWhile isDigit (x # t) @ stripOrdinals ?v"
    proof -
      have ih: "gsubFrom reOrdinal dollar1 p' ?v = stripOrdinals ?v"
        by (rule "2.IH"(1) [OF True])
      have d: "dollar1 c' = takeWhile isDigit (x # t)"
        using g by (simp add: dollar1_def)
      show ?thesis
        by (simp only: ih d)
    qed
    also have "\<dots> = stripOrdinals (x # t)"
      using True by (simp only: stripOrdinals.simps if_True)
    finally show ?thesis .
  next
    case False
    have "ms reOrdinal (p, x # t, Map.empty) = []"
      using False by (rule ms_reOrdinal_miss)
    then have "gsubFrom reOrdinal dollar1 p (x # t) = x # gsubFrom reOrdinal dollar1 (Some x) t"
      by (subst gsubFrom.simps) simp
    then show ?thesis
      using False "2.IH"(2) [OF False, of "Some x"] by simp
  qed
qed

lemma word_consumed:
  assumes "beginsWith ''Updated'' s \<or> beginsWith ''Created'' s"
  shows "\<exists>u. u \<noteq> [] \<and> s = u @ drop 7 s"
proof -
  have "s \<noteq> []"
    using assms by auto
  then have "take 7 s \<noteq> []"
    by simp
  moreover have "s = take 7 s @ drop 7 s"
    by simp
  ultimately show ?thesis
    by blast
qed

lemma gsub_reUpdatedCreated: "gsubFrom reUpdatedCreated (literal []) p s = dropWords s"
proof (induction s arbitrary: p rule: dropWords.induct)
  case 1
  have "ms reUpdatedCreated (p, [], Map.empty) = []"
    by (rule ms_reUpdatedCreated_miss) simp
  then show ?case
    by (subst gsubFrom.simps) simp
next
  case (2 x t)
  show ?case
  proof (cases "beginsWith ''Updated'' (x # t) \<or> beginsWith ''Created'' (x # t)")
    case True
    let ?v = "drop 7 (x # t)"
    obtain p' c' rest where m: "ms reUpdatedCreated (p, x # t, Map.empty) = (p', ?v, c') # rest"
      using ms_reUpdatedCreated_hit [OF True] by blast
    obtain u where u: "u \<noteq> []" "x # t = u @ ?v"
      using word_consumed [OF True] by blast
    have k: "length (x # t) - length ?v = length u" "drop (length u) (x # t) = ?v"
      using consumed [OF u(2)] by simp_all
    have "gsubFrom reUpdatedCreated (literal []) p (x # t)
        = literal [] c' @ gsubFrom reUpdatedCreated (literal []) p' ?v"
      by (subst gsubFrom.simps) (simp only: m k list.case prod.case Let_def length_0_conv u(1) if_False)
    also have "\<dots> = dropWords ?v"
    proof -
      have ih: "gsubFrom reUpdatedCreated (literal []) p' ?v = dropWords ?v"
        by (rule "2.IH"(1) [OF True])
      show ?thesis
        by (simp only: ih literal_def append_Nil)
    qed
    also have "\<dots> = dropWords (x # t)"
      using True by (simp only: dropWords.simps if_True)
    finally show ?thesis .
  next
    case False
    have "ms reUpdatedCreated (p, x # t, Map.empty) = []"
      using False by (rule ms_reUpdatedCreated_miss)
    then have "gsubFrom reUpdatedCreated (literal []) p (x # t)
        = x # gsubFrom reUpdatedCreated (literal []) (Some x) t"
      by (subst gsubFrom.simps) simp
    then show ?thesis
      using False "2.IH"(2) [OF False, of "Some x"] by simp
  qed
qed

lemma cleanCommon_steps: "cleanCommon w = dropWords (cutFromIP (stripOrdinals w))"
  by (simp add: cleanCommon_def replaceAll_def gsub_reOrdinal gsub_reUpdatedCreated replace1_reFromIP)

lemma cleanDisplay_steps:
  "cleanDisplay w = trim (stripOffset (dropWords (cutFromIP (stripOrdinals (trim w)))))"
  by (simp add: cleanDisplay_def cleanCommon_steps replace1_reGMT)

lemma cleanStorage_steps: "cleanStorage w = trim (dropWords (cutFromIP (stripOrdinals w)))"
  by (simp add: cleanStorage_def cleanCommon_steps)

subsection \<open>Cleanup and the parse\<close>

lemma parseDate_via_cleanDisplay:
  "w \<noteq> [] \<Longrightarrow> parseDate e now (Some w) = parseCleaned e (getFullYear e now) (cleanDisplay w)"
  by (simp add: parseDate_def)

lemma storage_via_cleanStorage:
  assumes "w \<noteq> []" and "w' \<noteq> []" and "cleanStorage w = cleanStorage w'"
  shows "parseDateToMySQL e clk (Text w) = parseDateToMySQL e clk (Text w')"
proof -
  have "storageTry e clk (Text w) = storageTry e clk (Text w')"
    using assms(3) by (simp add: storageTry_def)
  then show ?thesis
    using assms(1,2) by (simp add: parseDateToMySQL_def falsy_def)
qed

text \<open>
  C4, as stated, fails on the storage path, which has no replacement for the offset
  annotation: \<^verbatim>\<open>GMT+0200\<close> stays in the string that is parsed.
\<close>

theorem C4_storage_keeps_offset:
  "cleanStorage ''Oct 13, 2025 14:19:42 GMT+0200'' = ''Oct 13, 2025 14:19:42 GMT+0200''
   \<and> cleanDisplay ''Oct 13, 2025 14:19:42 GMT+0200'' = ''Oct 13, 2025 14:19:42''"
  by code_simp

text \<open>
  C4, amended. On the display path the cleaned string is the raw string after these steps, in
  this order: surrounding whitespace is trimmed; every run of digits that is followed by
  \<^verbatim>\<open>st\<close>, \<^verbatim>\<open>nd\<close>, \<^verbatim>\<open>rd\<close> or \<^verbatim>\<open>th\<close> (in any letter case) keeps its digits and loses the two
  letters; the string is cut at the first \<^verbatim>\<open>from IP\<close> (in any letter case) that no line
  terminator follows; every \<^verbatim>\<open>Updated\<close> and \<^verbatim>\<open>Created\<close> (in any letter case) is dropped; the
  string is cut at the whitespace before a final \<^verbatim>\<open>GMT\<close>, sign and two to four digits; the
  result is trimmed. The storage path does the second, third and fourth step and the final
  trim: it neither trims first nor removes the offset annotation. Each step is done once,
  from left to right, so what a step leaves is not cleaned again (\<^verbatim>\<open>1stst\<close> becomes \<^verbatim>\<open>1st\<close>).
  On each path the parse strategies see the cleaned string only: a string that is not empty
  parses as its cleaned form does whenever the cleaned form is not empty and is its own
  cleaned form. So \<^verbatim>\<open>Oct 13th, 2025\<close> parses as \<^verbatim>\<open>Oct 13, 2025\<close>; in
  \<^verbatim>\<open>Closed from IP 10.0.0.1 on Oct 13, 2025\<close> the cut at \<^verbatim>\<open>from IP\<close> takes the date with it, and
  the result is Unknown.
\<close>

theorem C4_cleanup_steps:
  "cleanDisplay w = trim (stripOffset (dropWords (cutFromIP (stripOrdinals (trim w)))))
   \<and> cleanStorage w = trim (dropWords (cutFromIP (stripOrdinals w)))
   \<and> (w \<noteq> [] \<longrightarrow> parseDate e now (Some w) = parseCleaned e (getFullYear e now) (cleanDisplay w))
   \<and> (w \<noteq> [] \<and> cleanDisplay w \<noteq> [] \<and> cleanDisplay (cleanDisplay w) = cleanDisplay w
        \<longrightarrow> parseDate e now (Some w) = parseDate e now (Some (cleanDisplay w)))
   \<and> (w \<noteq> [] \<and> cleanStorage w \<noteq> [] \<and> cleanStorage (cleanStorage w) = cleanStorage w
        \<longrightarrow> parseDateToMySQL e clk (Text w) = parseDateToMySQL e clk (Text (cleanStorage w)))
   \<and> cleanDisplay ''Oct 13th, 2025'' = ''Oct 13, 2025''
   \<and> parseDate (zoneEnv 0) 1760397282000 (Some ''Oct 13th, 2025'') = Some 1760313600000
   \<and> parseDate (zoneEnv 0) 1760397282000 (Some ''Oct 13, 2025'') = Some 1760313600000
   \<and> cleanDisplay ''Closed from IP 10.0.0.1 on Oct 13, 2025'' = ''Closed''
   \<and> parseDate (zoneEnv 0) 1760397282000 (Some ''Closed from IP 10.0.0.1 on Oct 13, 2025'') = None
   \<and> cleanDisplay ''1stst'' = ''1st''
   \<and> cleanDisplay (''x from IP 1.2.3.4'' @ [CHR 0x0A]) = ''x''
   \<and> cleanStorage (''x from IP 1.2.3.4'' @ [CHR 0x0A]) = ''x from IP 1.2.3.4''"
proof -
  have d: "w \<noteq> [] \<and> cleanDisplay w \<noteq> [] \<and> cleanDisplay (cleanDisplay w) = cleanDisplay w
        \<longrightarrow> parseDate e now (Some w) = parseDate e now (Some (cleanDisplay w))"
    by (simp add: parseDate_via_cleanDisplay)
  have s: "w \<noteq> [] \<and> cleanStorage w \<noteq> [] \<and> cleanStorage (cleanStorage w) = cleanStorage w
        \<longrightarrow> parseDateToMySQL e clk (Text w) = parseDateToMySQL e clk (Text (cleanStorage w))"
    using storage_via_cleanStorage [of w "cleanStorage w" e clk] by simp
  have p: "w \<noteq> [] \<longrightarrow> parseDate e now (Some w) = parseCleaned e (getFullYear e now) (cleanDisplay w)"
    by (simp add: parseDate_via_cleanDisplay)
  have c1: "cleanDisplay ''Oct 13th, 2025'' = ''Oct 13, 2025''"
    by code_simp
  have c2: "parseDate (zoneEnv 0) 1760397282000 (Some ''Oct 13th, 2025'') = Some 1760313600000"
    by code_simp
  have c3: "parseDate (zoneEnv 0) 1760397282000 (Some ''Oct 13, 2025'') = Some 1760313600000"
    by code_simp
  have c4: "cleanDisplay ''Closed from IP 10.0.0.1 on Oct 13, 2025'' = ''Closed''"
    by code_simp
  have c5: "parseDate (zoneEnv 0) 1760397282000 (Some ''Closed from IP 10.0.0.1 on Oct 13, 2025'') = None"
    by code_simp
  have c6: "cleanDisplay ''1stst'' = ''1st''"
    by code_simp
  have c7: "cleanDisplay (''x from IP 1.2.3.4'' @ [CHR 0x0A]) = ''x''"
    by code_simp
  have c8: "cleanStorage (''x from IP 1.2.3.4'' @ [CHR 0x0A]) = ''x from IP 1.2.3.4''"
    by code_simp
  show ?thesis
    by (intro conjI cleanDisplay_steps cleanStorage_steps p d s c1 c2 c3 c4 c5 c6 c7 c8)
qed

theorem C4_cleanup_steps_witness:
  "''Updated 2025-10-13T10:00:00Z from IP 1.2.3.4'' \<noteq> []
   \<and> cleanDisplay ''Updated 2025-10-13T10:00:00Z from IP 1.2.3.4'' = ''2025-10-13T10:00:00Z''
   \<and> cleanDisplay ''2025-10-13T10:00:00Z'' = ''2025-10-13T10:00:00Z''
   \<and> parseDate (zoneEnv 0) 1760397282000 (Some ''Updated 2025-10-13T10:00:00Z from IP 1.2.3.4'')
       = Some 1760349600000
   \<and> parseDate (zoneEnv 0) 1760397282000 (Some ''2025-10-13T10:00:00Z'') = Some 1760349600000
   \<and> cleanStorage ''Updated 2025-10-13T10:00:00Z from IP 1.2.3.4'' = ''2025-10-13T10:00:00Z''
   \<and> cleanStorage ''2025-10-13T10:00:00Z'' = ''2025-10-13T10:00:00Z''
   \<and> parseDateToMySQL (zoneEnv 0) (constClock 0) (Text ''Updated 2025-10-13T10:00:00Z from IP 1.2.3.4'')
       = Inr ''2025-10-13 10:00:00''
   \<and> parseDateToMySQL (zoneEnv 0) (constClock 0) (Text ''2025-10-13T10:00:00Z'')
       = Inr ''2025-10-13 10:00:00''"
proof -
  have a: "cleanDisplay ''Updated 2025-10-13T10:00:00Z from IP 1.2.3.4'' = ''2025-10-13T10:00:00Z''"
    "cleanDisplay ''2025-10-13T10:00:00Z'' = ''2025-10-13T10:00:00Z''"
    by code_simp+
  have b: "cleanStorage ''Updated 2025-10-13T10:00:00Z from IP 1.2.3.4'' = ''2025-10-13T10:00:00Z''"
    "cleanStorage ''2025-10-13T10:00:00Z'' = ''2025-10-13T10:00:00Z''"
    by code_simp+
  have p: "parseDate (zoneEnv 0) 1760397282000 (Some ''2025-10-13T10:00:00Z'') = Some 1760349600000"
    by code_simp
  have q: "parseDateToMySQL (zoneEnv 0) (constClock 0) (Text ''2025-10-13T10:00:00Z'')
       = Inr ''2025-10-13 10:00:00''"
    by code_simp
  let ?w = "''Updated 2025-10-13T10:00:00Z from IP 1.2.3.4''"
  note inst = C4_cleanup_steps [of ?w "zoneEnv 0" 1760397282000 "constClock 0"]
  have "?w \<noteq> [] \<and> cleanDisplay ?w \<noteq> [] \<and> cleanDisplay (cleanDisplay ?w) = cleanDisplay ?w
      \<longrightarrow> parseDate (zoneEnv 0) 1760397282000 (Some ?w)
          = parseDate (zoneEnv 0) 1760397282000 (Some (cleanDisplay ?w))"
    using inst by blast
  then have d: "parseDate (zoneEnv 0) 1760397282000 (Some ?w) = Some 1760349600000"
    by (simp add: a p)
  have "?w \<noteq> [] \<and> cleanStorage ?w \<noteq> [] \<and> cleanStorage (cleanStorage ?w) = cleanStorage ?w
      \<longrightarrow> parseDateToMySQL (zoneEnv 0) (constClock 0) (Text ?w)
          = parseDateToMySQL (zoneEnv 0) (constClock 0) (Text (cleanStorage ?w))"
    using inst by blast
  then have s: "parseDateToMySQL (zoneEnv 0) (constClock 0) (Text ?w) = Inr ''2025-10-13 10:00:00''"
    by (simp add: b q)
  show ?thesis
    by (simp add: a b p q d s)
qed

end
